theory Spec2Isabelle
  imports
    Complex_Main
    "HOL-Library.Word"
    "HOL-Library.List_Lexorder"
    "HOL-Library.Product_Lexorder"
    "HOL-Library.Sublist"
begin

section \<open>CSV import (pkg/ccl/sqlccl/csv.go): shared types\<close>

text \<open>
  Byte slices are lists of 8-bit words; \<open>roachpb.Key\<close> is a byte slice, ordered
  lexicographically (\<open>bytes.Compare\<close>). Go strings are \<open>string\<close>.
\<close>

type_synonym byte = "8 word"
type_synonym bytes = "byte list"
type_synonym Key = bytes

text \<open>
  Errors are kept structured: the format string of \<open>errors.Errorf\<close> / \<open>errors.Wrapf\<close>
  together with its arguments, and the wrapped cause. \<open>errors.New m\<close> is \<open>Errorf m []\<close>,
  \<open>errors.Wrap e m\<close> is \<open>Wrapf e m []\<close>. \<open>External\<close> is an error value produced outside
  this file (storage, RocksDB, \<open>ctx.Err()\<close>, the SQL layer).
\<close>

datatype arg = AInt int | AStr string | AKey Key

datatype error =
    Errorf string "arg list"
  | Wrapf error string "arg list"
  | External string

text \<open>All format strings and arguments of an error, outermost first.\<close>

fun formats :: "error \<Rightarrow> string list" where
  "formats (Errorf f as) = [f]"
| "formats (Wrapf e f as) = f # formats e"
| "formats (External m) = [m]"

fun args :: "error \<Rightarrow> arg list" where
  "args (Errorf f as) = as"
| "args (Wrapf e f as) = as @ args e"
| "args (External m) = []"

text \<open>
  Calls whose outcome is decided outside this file. An environment maps each call, indexed
  by how many calls of its kind went before, to \<open>None\<close> (the call succeeds; for a
  \<open>select\<close> on \<open>ctx.Done()\<close>: the context is not done) or to the error it returns.
\<close>

datatype ext_call =
    CtxDone nat
  | SendRecord nat
  | Put nat
  | WriterClose
  | MakeRocksDBSstFileWriter nat
  | IterValid nat
  | SstAdd nat
  | SstFinish nat
  | SendContent nat
  | ExportStorageFromURI
  | SHA512ChecksumData nat
  | WriteFile string
  | Marshal
  | SendSample nat

type_synonym env = "ext_call \<Rightarrow> error option"

section \<open>readCSV\<close>

text \<open>The struct \<open>csvRecord\<close> (fields \<open>r\<close>, \<open>file\<close>, \<open>row\<close>).\<close>

record csvRecord =
  rec_r :: "string list"
  rec_file :: string
  rec_row :: int

text \<open>
  The decoder (\<open>encoding/csv\<close>) and the storage are external: a source gives, for the
  separator, the comment rune and a file URI, either the error of opening the file
  (\<open>ExportStorageConfFromURI\<close>, \<open>MakeExportStorage\<close>, \<open>ReadFile\<close>) or the results of the
  successive \<open>cr.Read()\<close> calls before \<open>io.EOF\<close>.
\<close>

type_synonym csv_source = "int \<Rightarrow> int \<Rightarrow> string \<Rightarrow> error + (error + string list) list"

text \<open>
  The loop \<open>for i := 1; ; i++\<close> over the rows of one file. The state is the running
  \<open>count\<close> and the records sent on \<open>recordCh\<close> so far. \<open>expectedCols\<close> is a length
  (\<open>len(tableDesc.VisibleColumns())\<close> at both call sites), hence a natural number.
\<close>

fun readCSV_rows ::
  "env \<Rightarrow> nat \<Rightarrow> string \<Rightarrow> int \<Rightarrow> (error + string list) list \<Rightarrow> int \<times> csvRecord list
    \<Rightarrow> error option \<times> int \<times> csvRecord list" where
  "readCSV_rows E expectedCols dataFile i [] (count, ch) = (None, count, ch)"
| "readCSV_rows E expectedCols dataFile i (Inl err # rest) (count, ch) =
     (Some (Wrapf err ''row %d: reading CSV record'' [AInt i]), count, ch)"
| "readCSV_rows E expectedCols dataFile i (Inr record # rest) (count, ch) =
     (if length record = expectedCols \<or>
         (length record = expectedCols + 1 \<and> record ! expectedCols = '''')
      then
        (let record' = (if length record = expectedCols then record else take expectedCols record);
             cr = \<lparr>rec_r = record', rec_file = dataFile, rec_row = i\<rparr>
         in case E (SendRecord (nat count)) of
              Some e \<Rightarrow> (Some e, count, ch)
            | None \<Rightarrow> readCSV_rows E expectedCols dataFile (i + 1) rest (count + 1, ch @ [cr]))
      else
        (Some (Errorf ''row %d: expected %d fields, got %d''
                 [AInt i, AInt (int expectedCols), AInt (int (length record))]), count, ch))"

text \<open>The closure run once per data file.\<close>

definition readCSV_file ::
  "env \<Rightarrow> csv_source \<Rightarrow> int \<Rightarrow> int \<Rightarrow> nat \<Rightarrow> string \<Rightarrow> int \<times> csvRecord list
    \<Rightarrow> error option \<times> int \<times> csvRecord list" where
  "readCSV_file E src comma comment expectedCols dataFile st =
     (case src comma comment dataFile of
        Inl err \<Rightarrow> (Some err, st)
      | Inr reads \<Rightarrow> readCSV_rows E expectedCols dataFile 1 reads st)"

fun readCSV_files ::
  "env \<Rightarrow> csv_source \<Rightarrow> int \<Rightarrow> int \<Rightarrow> nat \<Rightarrow> nat \<Rightarrow> string list \<Rightarrow> int \<times> csvRecord list
    \<Rightarrow> (error + int) \<times> csvRecord list" where
  "readCSV_files E src comma comment expectedCols n [] (count, ch) = (Inr count, ch)"
| "readCSV_files E src comma comment expectedCols n (dataFile # rest) (count, ch) =
     (case E (CtxDone n) of
        Some e \<Rightarrow> (Inl e, ch)
      | None \<Rightarrow>
          (case readCSV_file E src comma comment expectedCols dataFile (count, ch) of
             (Some err, count', ch') \<Rightarrow> (Inl (Wrapf err dataFile []), ch')
           | (None, count', ch') \<Rightarrow>
               readCSV_files E src comma comment expectedCols (Suc n) rest (count', ch')))"

text \<open>
  \<open>readCSV\<close>: the result is the error (the count is then 0) or the number of rows read,
  with the records sent on \<open>recordCh\<close>.
\<close>

definition readCSV ::
  "env \<Rightarrow> csv_source \<Rightarrow> int \<Rightarrow> int \<Rightarrow> nat \<Rightarrow> string list \<Rightarrow> (error + int) \<times> csvRecord list" where
  "readCSV E src comma comment expectedCols dataFiles =
     readCSV_files E src (if comma = 0 then 44 else comma) comment expectedCols 0 dataFiles (0, [])"



section \<open>Key/value types\<close>

text \<open>\<open>hlc.Timestamp\<close>, \<open>roachpb.Value\<close>, \<open>roachpb.KeyValue\<close>, \<open>roachpb.Span\<close>,
  \<open>engine.MVCCKey\<close> and \<open>engine.MVCCKeyValue\<close>, with the fields this file reads or writes.\<close>

record Timestamp =
  WallTime :: int
  Logical :: int

record Value =
  RawBytes :: bytes
  val_Timestamp :: Timestamp

record KeyValue =
  Key :: Key
  Value :: Value

record Span =
  span_Key :: Key
  EndKey :: Key

record MVCCKey =
  mvcc_Key :: Key
  mvcc_Timestamp :: Timestamp

record MVCCKeyValue =
  kv_Key :: MVCCKey
  kv_Value :: bytes

text \<open>
  Modelled from the spec: \<open>roachpb.Key.Next\<close> (pkg/roachpb, not among the sources), the
  \<open>next()\<close> of the last added key that ends a segment's half-open span. It is the
  immediate successor of the key in byte order: the key followed by a zero byte.
\<close>

definition Next :: "Key \<Rightarrow> Key" where
  "Next k = k @ [0]"

section \<open>The disk multi-map and the SST builder\<close>

text \<open>
  Modelled from the spec: \<open>engine.NewRocksDBMultiMap\<close> (pkg/storage/engine, not among the
  sources): a multi-map keyed by raw key bytes that accepts inserts in any order and, once
  its write phase is closed, iterates in sorted key order. It holds key and value bytes
  only. The order among equal keys is not promised; the model keeps insertion order.
\<close>

type_synonym multimap = "(Key \<times> bytes) list"

definition multimap_Put :: "multimap \<Rightarrow> Key \<Rightarrow> bytes \<Rightarrow> multimap" where
  "multimap_Put m k v = m @ [(k, v)]"

definition NewIterator :: "multimap \<Rightarrow> (Key \<times> bytes) list" where
  "NewIterator m = sort_key fst m"

text \<open>
  Modelled from the spec: \<open>engine.RocksDBSstFileWriter\<close> (pkg/storage/engine, not among the
  sources), the running SST builder with its accumulated byte size. \<open>Add\<close> appends an entry
  and adds the bytes of its key and value to \<open>DataSize\<close>; it fails when the key is not
  greater than the key added before (in \<open>writeRocksDB\<close>, where the iteration is sorted and
  every entry carries the same timestamp, that is a duplicate key), and whenever the
  environment makes it fail. \<open>Finish\<close> returns the content, an opaque blob that the model
  represents by the entries it holds.
\<close>

record RocksDBSstFileWriter =
  entries :: "MVCCKeyValue list"
  DataSize :: int

definition MakeRocksDBSstFileWriter_new :: "env \<Rightarrow> nat \<Rightarrow> error + RocksDBSstFileWriter" where
  "MakeRocksDBSstFileWriter_new E n =
     (case E (MakeRocksDBSstFileWriter n) of
        Some e \<Rightarrow> Inl e
      | None \<Rightarrow> Inr \<lparr>entries = [], DataSize = 0\<rparr>)"

definition kv_bytes :: "MVCCKeyValue \<Rightarrow> int" where
  "kv_bytes kv = int (length (mvcc_Key (kv_Key kv))) + int (length (kv_Value kv))"

definition sst_Add ::
  "env \<Rightarrow> nat \<Rightarrow> RocksDBSstFileWriter \<Rightarrow> MVCCKeyValue \<Rightarrow> error + RocksDBSstFileWriter" where
  "sst_Add E n w kv =
     (case E (SstAdd n) of
        Some e \<Rightarrow> Inl e
      | None \<Rightarrow>
          if entries w \<noteq> [] \<and> \<not> mvcc_Key (kv_Key (last (entries w))) < mvcc_Key (kv_Key kv)
          then Inl (External ''keys must be added in order'')
          else Inr \<lparr>entries = entries w @ [kv], DataSize = DataSize w + kv_bytes kv\<rparr>)"

section \<open>writeRocksDB\<close>

text \<open>The struct \<open>sstContent\<close> (fields \<open>data\<close>, \<open>size\<close>, \<open>span\<close>).\<close>

record sstContent =
  sc_data :: "MVCCKeyValue list"
  sc_size :: int
  sc_span :: Span

definition errSSTCreationMaybeDuplicateTemplate :: string where
  "errSSTCreationMaybeDuplicateTemplate =
     ''SST creation error at %s; this can happen when a primary or unique index has duplicate keys''"

text \<open>
  The local variables of the iteration phase. \<open>firstKey\<close> is \<open>None\<close> for the nil slice,
  which the code tests with \<open>firstKey == nil\<close>; \<open>lastKey\<close> is only compared with
  \<open>Equal\<close> (\<open>bytes.Equal\<close>, for which nil and the empty slice are the same), so nil is
  the empty list. The iterator's \<open>Key()\<close> is taken to return a non-nil slice; for the
  empty key either reading gives the same error. \<open>contentCh\<close> holds the segments sent so
  far, in order.
\<close>

record wr_state =
  sst :: RocksDBSstFileWriter
  kv :: MVCCKeyValue
  firstKey :: "Key option"
  lastKey :: Key
  count :: int
  contentCh :: "sstContent list"

text \<open>The bytes of a possibly nil slice.\<close>

fun bytes_of :: "Key option \<Rightarrow> Key" where
  "bytes_of None = []"
| "bytes_of (Some k) = k"

text \<open>The closure \<open>writeSST\<close>: finish the builder and send the segment, unless the
  context is done.\<close>

definition writeSST :: "env \<Rightarrow> Key \<Rightarrow> Key \<Rightarrow> wr_state \<Rightarrow> error option \<times> wr_state" where
  "writeSST E key endKey st =
     (case E (SstFinish (length (contentCh st))) of
        Some e \<Rightarrow> (Some e, st)
      | None \<Rightarrow>
          (let sc = \<lparr>sc_data = entries (sst st), sc_size = DataSize (sst st),
                     sc_span = \<lparr>span_Key = key, EndKey = endKey\<rparr>\<rparr>
           in case E (SendContent (length (contentCh st))) of
                Some e \<Rightarrow> (Some e, st)
              | None \<Rightarrow> (None, st\<lparr>contentCh := contentCh st @ [sc]\<rparr>)))"

text \<open>
  The loop body \<open>for it.Rewind(); ; it.Next()\<close> on the entry \<open>(k, v)\<close>, in its three
  parts. First: save the first key of the span and compare it with the last key of the
  previous SST.
\<close>

definition check_firstKey :: "Key \<Rightarrow> wr_state \<Rightarrow> error option \<times> wr_state" where
  "check_firstKey k st =
     (if firstKey st = None
      then (let st' = st\<lparr>firstKey := Some k\<rparr>
            in if k = lastKey st'
               then (Some (Errorf ''duplicate key: %s'' [AKey k]), st')
               else (None, st'))
      else (None, st))"

text \<open>Second: fill \<open>kv\<close> with the key, the \<open>walltime\<close> parameter and the value, and add it
  to the builder.\<close>

definition add_kv :: "env \<Rightarrow> int \<Rightarrow> Key \<Rightarrow> bytes \<Rightarrow> wr_state \<Rightarrow> error option \<times> wr_state" where
  "add_kv E walltime k v st =
     (let st' = st\<lparr>kv := \<lparr>kv_Key = \<lparr>mvcc_Key = k,
                              mvcc_Timestamp = (mvcc_Timestamp (kv_Key (kv st)))
                                                 \<lparr>WallTime := walltime\<rparr>\<rparr>,
                            kv_Value = v\<rparr>\<rparr>
      in case sst_Add E (nat (count st - 1)) (sst st') (kv st') of
           Inl err \<Rightarrow>
             (Some (Wrapf err errSSTCreationMaybeDuplicateTemplate
                      [AKey (mvcc_Key (kv_Key (kv st')))]), st')
         | Inr w \<Rightarrow> (None, st'\<lparr>sst := w\<rparr>))"

text \<open>Third: when the builder is over the limit, send the segment, remember its last key
  and start a new builder.\<close>

definition flush_if_full :: "env \<Rightarrow> int \<Rightarrow> wr_state \<Rightarrow> error option \<times> wr_state" where
  "flush_if_full E sstMaxSize st =
     (if DataSize (sst st) > sstMaxSize
      then
       (case writeSST E (bytes_of (firstKey st)) (Next (mvcc_Key (kv_Key (kv st)))) st of
          (Some e, st') \<Rightarrow> (Some e, st')
        | (None, st') \<Rightarrow>
           (let st'' = st'\<lparr>firstKey := None, lastKey := mvcc_Key (kv_Key (kv st'))\<rparr>
            in case MakeRocksDBSstFileWriter_new E (length (contentCh st'')) of
                 Inl e \<Rightarrow> (Some e, st'')
               | Inr w \<Rightarrow> (None, st''\<lparr>sst := w\<rparr>)))
      else (None, st))"

definition writeRocksDB_step ::
  "env \<Rightarrow> int \<Rightarrow> int \<Rightarrow> Key \<Rightarrow> bytes \<Rightarrow> wr_state \<Rightarrow> error option \<times> wr_state" where
  "writeRocksDB_step E sstMaxSize walltime k v st =
     (case E (IterValid (nat (count st))) of
        Some e \<Rightarrow> (Some e, st)
      | None \<Rightarrow>
         (case check_firstKey k (st\<lparr>count := count st + 1\<rparr>) of
            (Some e, st1) \<Rightarrow> (Some e, st1)
          | (None, st1) \<Rightarrow>
             (case add_kv E walltime k v st1 of
                (Some e, st2) \<Rightarrow> (Some e, st2)
              | (None, st2) \<Rightarrow> flush_if_full E sstMaxSize st2)))"

fun writeRocksDB_iterate ::
  "env \<Rightarrow> int \<Rightarrow> int \<Rightarrow> (Key \<times> bytes) list \<Rightarrow> wr_state \<Rightarrow> error option \<times> wr_state" where
  "writeRocksDB_iterate E sstMaxSize walltime [] st =
     (case E (IterValid (nat (count st))) of
        Some e \<Rightarrow> (Some e, st)
      | None \<Rightarrow> (None, st))"
| "writeRocksDB_iterate E sstMaxSize walltime ((k, v) # rest) st =
     (case writeRocksDB_step E sstMaxSize walltime k v st of
        (Some e, st') \<Rightarrow> (Some e, st')
      | (None, st') \<Rightarrow> writeRocksDB_iterate E sstMaxSize walltime rest st')"

text \<open>The write phase: \<open>writer.Put(kv.Key, kv.Value.RawBytes)\<close> for each KV of \<open>kvCh\<close>.\<close>

fun writeRocksDB_put :: "env \<Rightarrow> nat \<Rightarrow> KeyValue list \<Rightarrow> multimap \<Rightarrow> error + multimap" where
  "writeRocksDB_put E n [] m = Inr m"
| "writeRocksDB_put E n (x # kvCh) m =
     (case E (Put n) of
        Some e \<Rightarrow> Inl e
      | None \<Rightarrow> writeRocksDB_put E (Suc n) kvCh (multimap_Put m (Key x) (RawBytes (Value x))))"

text \<open>
  \<open>writeRocksDB\<close>. \<open>now\<close> is \<open>timeutil.Now().UnixNano()\<close> at the start of the iteration
  phase. The result is the error (the count is then 0) or the number of KVs, together with
  the final local state: the segments sent on \<open>contentCh\<close> and the builder in use when the
  function returned.
\<close>

definition initial_state :: "RocksDBSstFileWriter \<Rightarrow> int \<Rightarrow> wr_state" where
  "initial_state w now =
     \<lparr>sst = w,
      kv = \<lparr>kv_Key = \<lparr>mvcc_Key = [], mvcc_Timestamp = \<lparr>WallTime = now, Logical = 0\<rparr>\<rparr>,
            kv_Value = []\<rparr>,
      firstKey = None, lastKey = [], count = 0, contentCh = []\<rparr>"

definition writeRocksDB ::
  "env \<Rightarrow> KeyValue list \<Rightarrow> int \<Rightarrow> int \<Rightarrow> int \<Rightarrow> (error + int) \<times> wr_state" where
  "writeRocksDB E kvCh sstMaxSize walltime now =
     (let st0 = initial_state \<lparr>entries = [], DataSize = 0\<rparr> now in
      case writeRocksDB_put E 0 kvCh [] of
        Inl e \<Rightarrow> (Inl e, st0)
      | Inr store \<Rightarrow>
         (case E WriterClose of
            Some e \<Rightarrow> (Inl e, st0)
          | None \<Rightarrow>
             (case MakeRocksDBSstFileWriter_new E 0 of
                Inl e \<Rightarrow> (Inl e, st0)
              | Inr w \<Rightarrow>
                 (case writeRocksDB_iterate E sstMaxSize walltime (NewIterator store)
                         (initial_state w now) of
                    (Some e, st) \<Rightarrow> (Inl e, st)
                  | (None, st) \<Rightarrow>
                     if DataSize (sst st) > 0
                     then
                      (case writeSST E (bytes_of (firstKey st))
                              (Next (mvcc_Key (kv_Key (kv st)))) st of
                         (Some e, st') \<Rightarrow> (Inl e, st')
                       | (None, st') \<Rightarrow> (Inr (count st'), st'))
                     else (Inr (count st), st)))))"

section \<open>Table descriptors and makeCSVTableDescriptor\<close>

text \<open>
  The parsed statement (\<open>parser.CreateTable\<close>) with the fields this file reads, and a
  sketch of its definitions: a column with its type, its \<open>DEFAULT\<close> expression and the
  table it \<open>REFERENCES\<close>, a \<open>FOREIGN KEY\<close> constraint, or any other definition.
\<close>

datatype TableDef =
    ColumnTableDef string string "string option" "string option"
  | ForeignKeyConstraintTableDef "string list" string
  | OtherTableDef string

record CreateTable =
  IfNotExists :: bool
  Table :: string
  Interleave :: "string option"
  Defs :: "TableDef list"
  AsSource :: "string option"

text \<open>
  Modelled from the spec: \<open>sqlbase.TableDescriptor\<close> (pkg/sql/sqlbase, not among the
  sources), with its column list; each column has a name, may be hidden (the synthetic
  row id) and may carry a default expression. \<open>VisibleColumns\<close> is the list of the
  columns that are not hidden.
\<close>

record ColumnDescriptor =
  col_Name :: string
  Hidden :: bool
  DefaultExpr :: "string option"

record TableDescriptor =
  td_Name :: string
  td_ID :: nat
  td_ParentID :: nat
  Columns :: "ColumnDescriptor list"

definition VisibleColumns :: "TableDescriptor \<Rightarrow> ColumnDescriptor list" where
  "VisibleColumns desc = filter (\<lambda>col. \<not> Hidden col) (Columns desc)"

text \<open>\<open>sql.MakeTableDesc\<close> is outside this file: the statement, the two ids and the
  creation time give an error or a descriptor.\<close>

type_synonym make_table_desc = "CreateTable \<Rightarrow> nat \<Rightarrow> nat \<Rightarrow> int \<Rightarrow> error + TableDescriptor"

definition makeCSVTableDescriptor ::
  "make_table_desc \<Rightarrow> CreateTable \<Rightarrow> nat \<Rightarrow> nat \<Rightarrow> int \<Rightarrow> error + TableDescriptor" where
  "makeCSVTableDescriptor MakeTableDesc create parentID tableID walltime =
     (if IfNotExists create then Inl (Errorf ''unsupported IF NOT EXISTS'' [])
      else if Interleave create \<noteq> None then Inl (Errorf ''interleaved not supported'' [])
      else if AsSource create \<noteq> None then Inl (Errorf ''CREATE AS not supported'' [])
      else
        (case MakeTableDesc create parentID tableID walltime of
           Inl err \<Rightarrow> Inl err
         | Inr tableDesc \<Rightarrow>
            (case find (\<lambda>col. DefaultExpr col \<noteq> None) (VisibleColumns tableDesc) of
               Some col \<Rightarrow>
                 Inl (Errorf ''column %q: DEFAULT expression unsupported'' [AStr (col_Name col)])
             | None \<Rightarrow> Inr tableDesc)))"




section \<open>makeBackup and finalizeCSVBackup\<close>

text \<open>\<open>BackupDescriptor_File\<close> and \<open>BackupDescriptor\<close> with the fields this file sets.\<close>

record BackupDescriptor_File =
  Path :: string
  Span :: Span
  Sha512 :: bytes

datatype Descriptor = DatabaseDescriptor string nat | TableDesc TableDescriptor

record BackupDescriptor =
  EndTime :: Timestamp
  Files :: "BackupDescriptor_File list"
  EntryCounts_DataSize :: int
  Spans :: "Span list"
  Descriptors :: "Descriptor list"
  FormatVersion :: nat
  BuildInfo :: string
  NodeID :: nat
  ClusterID :: string

text \<open>
  What the package and its collaborators provide as constants and pure functions: the
  checksum function, the table's key span, the name the descriptor is written under, the
  format version and the build information.
\<close>

record externs =
  SHA512 :: "MVCCKeyValue list \<Rightarrow> bytes"
  TableSpan :: "TableDescriptor \<Rightarrow> Span"
  BackupDescriptorName :: string
  BackupFormatInitialVersion :: nat
  GetInfo :: string

text \<open>The destination storage, as the log of the files written to it: a segment's
  content, or the serialized descriptor (represented by the descriptor).\<close>

datatype file_content = SstData "MVCCKeyValue list" | DescriptorData BackupDescriptor

type_synonym export_storage = "(string \<times> file_content) list"

text \<open>\<open>sql.ExecutorConfig\<close>: the node and cluster ids of the driving executor.\<close>

record ExecutorConfig =
  cfg_NodeID :: nat
  cfg_ClusterID :: string

definition csvDatabaseName :: string where
  "csvDatabaseName = ''csv''"

text \<open>
  Modelled from the spec: the ordering \<open>backupFileDescriptors\<close> (backup.go, not among the
  sources) sorts descriptor entries by start key, then end key.
\<close>

definition sort_backupFileDescriptors ::
  "BackupDescriptor_File list \<Rightarrow> BackupDescriptor_File list" where
  "sort_backupFileDescriptors fs = sort_key (\<lambda>f. (span_Key (Span f), EndKey (Span f))) fs"

definition finalizeCSVBackup ::
  "env \<Rightarrow> externs \<Rightarrow> BackupDescriptor \<Rightarrow> nat \<Rightarrow> TableDescriptor \<Rightarrow> export_storage
     \<Rightarrow> ExecutorConfig option \<Rightarrow> error option \<times> BackupDescriptor \<times> export_storage" where
  "finalizeCSVBackup E X backupDesc parentID tableDesc es execCfg =
     (if length (Files backupDesc) = 0
      then (Some (Errorf ''no files in backup'' []), backupDesc, es)
      else
       (let d1 = backupDesc
              \<lparr>Files := sort_backupFileDescriptors (Files backupDesc),
               Spans := [TableSpan X tableDesc],
               Descriptors := [DatabaseDescriptor csvDatabaseName parentID, TableDesc tableDesc],
               FormatVersion := BackupFormatInitialVersion X,
               BuildInfo := GetInfo X\<rparr>;
            d2 = (case execCfg of
                    None \<Rightarrow> d1
                  | Some cfg \<Rightarrow> d1\<lparr>NodeID := cfg_NodeID cfg, ClusterID := cfg_ClusterID cfg\<rparr>)
        in case E Marshal of
             Some err \<Rightarrow> (Some err, d2, es)
           | None \<Rightarrow>
              (case E (WriteFile (BackupDescriptorName X)) of
                 Some err \<Rightarrow> (Some err, d2, es)
               | None \<Rightarrow> (None, d2, es @ [(BackupDescriptorName X, DescriptorData d2)]))))"

text \<open>Decimal digits of a natural number, for \<open>fmt.Sprintf("%d.sst", i)\<close>.\<close>

definition digit :: "nat \<Rightarrow> char" where
  "digit d = ''0123456789'' ! d"

function itoa :: "nat \<Rightarrow> string" where
  "itoa n = (if n < 10 then [digit n] else itoa (n div 10) @ [digit (n mod 10)])"
  by pat_completeness auto
termination
  by (relation "measure id") auto

declare itoa.simps [simp del]

definition sst_name :: "nat \<Rightarrow> string" where
  "sst_name i = itoa i @ ''.sst''"



text \<open>
  The loop \<open>for sst := range contentCh\<close> of \<open>makeBackup\<close>, with the counter \<open>i\<close>, the
  descriptor and the storage as state.
\<close>

fun makeBackup_loop ::
  "env \<Rightarrow> externs \<Rightarrow> sstContent list \<Rightarrow> nat \<times> BackupDescriptor \<times> export_storage
     \<Rightarrow> error option \<times> nat \<times> BackupDescriptor \<times> export_storage" where
  "makeBackup_loop E X [] (i, backupDesc, es) = (None, i, backupDesc, es)"
| "makeBackup_loop E X (sc # rest) (i, backupDesc, es) =
     (let d1 = backupDesc\<lparr>EntryCounts_DataSize := EntryCounts_DataSize backupDesc + sc_size sc\<rparr>
      in case E (SHA512ChecksumData i) of
           Some err \<Rightarrow> (Some err, i, d1, es)
         | None \<Rightarrow>
            (let checksum = SHA512 X (sc_data sc);
                 i' = i + 1;
                 name = sst_name i'
             in case E (WriteFile name) of
                  Some err \<Rightarrow> (Some err, i', d1, es)
                | None \<Rightarrow>
                   makeBackup_loop E X rest
                     (i', d1\<lparr>Files := Files d1 @
                               [\<lparr>Path = name, Span = sc_span sc, Sha512 = checksum\<rparr>]\<rparr>,
                      es @ [(name, SstData (sc_data sc))])))"

text \<open>
  \<open>makeBackup\<close>, where \<open>contents\<close> is what is received on \<open>contentCh\<close> before it is
  closed: the returned count and error, with the descriptor as it stood when the
  function returned and the files written to the destination.
\<close>

definition empty_BackupDescriptor :: "int \<Rightarrow> BackupDescriptor" where
  "empty_BackupDescriptor walltime =
     \<lparr>EndTime = \<lparr>WallTime = walltime, Logical = 0\<rparr>, Files = [], EntryCounts_DataSize = 0,
      Spans = [], Descriptors = [], FormatVersion = 0, BuildInfo = [], NodeID = 0,
      ClusterID = []\<rparr>"

definition makeBackup ::
  "env \<Rightarrow> externs \<Rightarrow> nat \<Rightarrow> TableDescriptor \<Rightarrow> export_storage \<Rightarrow> sstContent list \<Rightarrow> int
     \<Rightarrow> ExecutorConfig option \<Rightarrow> (int \<times> error option) \<times> BackupDescriptor \<times> export_storage" where
  "makeBackup E X parentID tableDesc es contents walltime execCfg =
     (let backupDesc = empty_BackupDescriptor walltime in
      case E ExportStorageFromURI of
        Some err \<Rightarrow> ((0, Some err), backupDesc, es)
      | None \<Rightarrow>
         (case makeBackup_loop E X contents (0, backupDesc, es) of
            (Some err, i, d, es') \<Rightarrow> ((0, Some err), d, es')
          | (None, i, d, es') \<Rightarrow>
             (case finalizeCSVBackup E X d parentID tableDesc es' execCfg of
                (err, d', es'') \<Rightarrow> ((int (length (Files d')), err), d', es''))))"

section \<open>doLocalCSVTransform\<close>

text \<open>
  \<open>convertRecord\<close> turns records into KVs with the SQL layer's parsers and encoders, run by
  one worker per CPU; it is taken as a function from the records received (with the
  \<open>nullif\<close> option and the descriptor) to its error and the KVs sent on \<open>kvCh\<close>.
\<close>

type_synonym convert_record =
  "string option \<Rightarrow> TableDescriptor \<Rightarrow> csvRecord list \<Rightarrow> error option \<times> KeyValue list"

text \<open>
  \<open>errgroup.Group.Wait\<close> returns the first non-nil error: the error of the goroutine that
  was first to return one. \<open>order\<close> lists the goroutines (by their position in the source)
  in the order in which they returned.
\<close>

fun errgroup_Wait :: "error option list \<Rightarrow> nat list \<Rightarrow> error option" where
  "errgroup_Wait errs [] = None"
| "errgroup_Wait errs (g # order) =
     (case (if g < length errs then errs ! g else None) of
        Some e \<Rightarrow> Some e
      | None \<Rightarrow> errgroup_Wait errs order)"

fun count_of :: "error + int \<Rightarrow> int" where
  "count_of (Inl e) = 0"
| "count_of (Inr n) = n"

fun err_of :: "error + int \<Rightarrow> error option" where
  "err_of (Inl e) = Some e"
| "err_of (Inr n) = None"

text \<open>
  The four goroutines: reader, converters, sorter/writer and finalizer. Each closes its
  outgoing channel when it returns (\<open>defer close\<close>), so the next stage receives what was
  sent until then. The result is \<open>(csvCount, kvCount, sstCount, err)\<close> with the files
  written to the destination.
\<close>

definition doLocalCSVTransform ::
  "env \<Rightarrow> csv_source \<Rightarrow> convert_record \<Rightarrow> externs \<Rightarrow> nat list \<Rightarrow> nat \<Rightarrow> TableDescriptor
     \<Rightarrow> export_storage \<Rightarrow> string list \<Rightarrow> int \<Rightarrow> int \<Rightarrow> string option \<Rightarrow> int \<Rightarrow> int \<Rightarrow> int
     \<Rightarrow> ExecutorConfig option \<Rightarrow> (int \<times> int \<times> int \<times> error option) \<times> export_storage" where
  "doLocalCSVTransform E src convertRecord X order parentID tableDesc dest dataFiles comma comment
       nullif sstMaxSize walltime now execCfg =
     (case readCSV E src comma comment (length (VisibleColumns tableDesc)) dataFiles of
        (r1, recordCh) \<Rightarrow>
     (case convertRecord nullif tableDesc recordCh of
        (e2, kvCh) \<Rightarrow>
     (case writeRocksDB E kvCh sstMaxSize walltime now of
        (r3, st) \<Rightarrow>
     (case makeBackup E X parentID tableDesc dest (contentCh st) walltime execCfg of
        ((sstCount, e4), d, dest') \<Rightarrow>
          ((count_of r1, count_of r3, sstCount,
            errgroup_Wait [err_of r1, e2, err_of r3, e4] order), dest')))))"

section \<open>The IMPORT plan hook\<close>

definition importOptionDelimiter :: string where "importOptionDelimiter = ''delimiter''"
definition importOptionComment :: string where "importOptionComment = ''comment''"
definition importOptionDistributed :: string where "importOptionDistributed = ''distributed''"
definition importOptionNullIf :: string where "importOptionNullIf = ''nullif''"
definition importOptionTransformOnly :: string where "importOptionTransformOnly = ''transform_only''"
definition importOptionSSTSize :: string where "importOptionSSTSize = ''sstsize''"
definition importOptionTemp :: string where "importOptionTemp = ''temp''"

datatype Datum = DInt int | DString string | DFloat real

text \<open>
  Modelled from the spec: \<open>jobs.StatusSucceeded\<close> (pkg/sql/jobs, not among the sources);
  the status of the return row is "succeeded".
\<close>

definition StatusSucceeded :: string where
  "StatusSucceeded = ''succeeded''"

text \<open>
  What the closure returned by \<open>importPlanHook\<close> gets from the planner, the statement, the
  job registry and the other files of the package: the evaluated options and file list, the
  session database, the parsers of option values, the default range size, the statement's
  table name and inline definitions, the schema file and its reader, \<open>sql.MakeTableDesc\<close>,
  the job description, the job with its id and the outcomes of its lifecycle calls, the
  two transforms as called with the closure's arguments, and the restore planner.
\<close>

record plan_env =
  optsFn :: "error + (string \<rightharpoonup> string)"
  filesFn :: "error + string list"
  Database :: string
  restoreOptIntoDB :: string
  GetSingleRune :: "string \<Rightarrow> error + int"
  ParseBytes :: "string \<Rightarrow> error + int"
  RangeMaxBytes :: int
  stmt_Table :: string
  CreateDefs :: "TableDef list option"
  createFileFn :: "error + string"
  readCreateTableFromStore :: "string \<Rightarrow> error + CreateTable"
  MakeTableDesc :: make_table_desc
  defaultCSVParentID :: nat
  defaultCSVTableID :: nat
  importJobDescription :: "TableDef list \<Rightarrow> string list \<Rightarrow> (string \<rightharpoonup> string) \<Rightarrow> error + string"
  job_ID :: int
  job_Created :: "error option"
  job_Started :: "error option"
  job_FinishedWith :: "error option \<Rightarrow> error option"
  distributedTransform ::
    "string list \<Rightarrow> TableDescriptor \<Rightarrow> string \<Rightarrow> int \<Rightarrow> int \<Rightarrow> string option \<Rightarrow> int
      \<Rightarrow> int \<times> error option"
  localTransform ::
    "nat \<Rightarrow> TableDescriptor \<Rightarrow> string \<Rightarrow> string list \<Rightarrow> int \<Rightarrow> int \<Rightarrow> string option \<Rightarrow> int \<Rightarrow> int
      \<Rightarrow> int \<times> int \<times> int \<times> error option"
  doRestorePlan :: "string \<Rightarrow> string \<Rightarrow> error option \<times> Datum list list"

text \<open>The option handling at the head of the closure, in its order.\<close>

definition import_targetDB :: "plan_env \<Rightarrow> (string \<rightharpoonup> string) \<Rightarrow> bool \<Rightarrow> error + string" where
  "import_targetDB P opts transformOnly =
     (if \<not> transformOnly then
        (case opts (restoreOptIntoDB P) of
           None \<Rightarrow>
             (if Database P \<noteq> '''' then Inr (Database P)
              else Inl (Errorf ''must specify target database with %q option''
                          [AStr (restoreOptIntoDB P)]))
         | Some override \<Rightarrow> Inr override)
      else Inr '''')"

definition import_rune ::
  "plan_env \<Rightarrow> (string \<rightharpoonup> string) \<Rightarrow> string \<Rightarrow> string \<Rightarrow> error + int" where
  "import_rune P opts name msg =
     (case opts name of
        None \<Rightarrow> Inr 0
      | Some override \<Rightarrow>
          (case GetSingleRune P override of
             Inl err \<Rightarrow> Inl (Wrapf err msg [])
           | Inr c \<Rightarrow> Inr c))"

definition import_sstSize :: "plan_env \<Rightarrow> (string \<rightharpoonup> string) \<Rightarrow> error + int" where
  "import_sstSize P opts =
     (case opts importOptionSSTSize of
        None \<Rightarrow> Inr (RangeMaxBytes P div 2)
      | Some override \<Rightarrow> ParseBytes P override)"

definition import_create :: "plan_env \<Rightarrow> error + CreateTable" where
  "import_create P =
     (case CreateDefs P of
        Some defs \<Rightarrow>
          Inr \<lparr>IfNotExists = False, Table = stmt_Table P, Interleave = None, Defs = defs,
               AsSource = None\<rparr>
      | None \<Rightarrow>
          (case createFileFn P of
             Inl err \<Rightarrow> Inl err
           | Inr filename \<Rightarrow>
              (case readCreateTableFromStore P filename of
                 Inl err \<Rightarrow> Inl err
               | Inr create \<Rightarrow>
                  if Table create \<noteq> stmt_Table P
                  then Inl (Errorf
                    ''importing table %q, but file specifies a schema for table %q''
                    [AStr (stmt_Table P), AStr (Table create)])
                  else Inr create)))"

text \<open>
  The rest of the closure, from the job's creation on: run the transform, finish the job,
  and either send the result row (transform only) or hand over to the restore planner.
  The result is the returned error and the rows sent on \<open>resultsCh\<close>.
\<close>

definition import_run ::
  "plan_env \<Rightarrow> (string \<rightharpoonup> string) \<Rightarrow> string list \<Rightarrow> bool \<Rightarrow> string \<Rightarrow> int \<Rightarrow> int
     \<Rightarrow> string option \<Rightarrow> string \<Rightarrow> int \<Rightarrow> TableDescriptor \<Rightarrow> int \<Rightarrow> error option \<times> Datum list list" where
  "import_run P opts files transformOnly targetDB comma comment nullif temp sstSize tableDesc
       walltime =
     (case job_Created P of
        Some err \<Rightarrow> (Some err, [])
      | None \<Rightarrow>
     (case job_Started P of
        Some err \<Rightarrow> (Some err, [])
      | None \<Rightarrow>
       (let importErr =
              (if opts importOptionDistributed \<noteq> None
               then snd (distributedTransform P files tableDesc temp comma comment nullif walltime)
               else snd (snd (snd (localTransform P (defaultCSVParentID P) tableDesc temp files
                                     comma comment nullif sstSize walltime))))
        in case job_FinishedWith P importErr of
             Some err \<Rightarrow> (Some err, [])
           | None \<Rightarrow>
              (case importErr of
                 Some err \<Rightarrow> (Some err, [])
               | None \<Rightarrow>
                  if transformOnly
                  then (None, [[DInt (job_ID P), DString StatusSucceeded, DFloat 1,
                                DInt 0, DInt 0, DInt 0, DInt 0]])
                  else doRestorePlan P temp targetDB))))"

text \<open>The closure \<open>fn\<close> returned by \<open>importPlanHook\<close>; \<open>walltime\<close> is
  \<open>timeutil.Now().UnixNano()\<close> at its start.\<close>

definition importPlanHook_fn :: "plan_env \<Rightarrow> int \<Rightarrow> error option \<times> Datum list list" where
  "importPlanHook_fn P walltime =
     (case optsFn P of Inl err \<Rightarrow> (Some err, []) | Inr opts \<Rightarrow>
     (case filesFn P of Inl err \<Rightarrow> (Some err, []) | Inr files \<Rightarrow>
     (let transformOnly = (opts importOptionTransformOnly \<noteq> None) in
      case import_targetDB P opts transformOnly of Inl err \<Rightarrow> (Some err, []) | Inr targetDB \<Rightarrow>
     (case import_rune P opts importOptionDelimiter ''invalid comma value'' of
        Inl err \<Rightarrow> (Some err, []) | Inr comma \<Rightarrow>
     (case import_rune P opts importOptionComment ''invalid comment value'' of
        Inl err \<Rightarrow> (Some err, []) | Inr comment \<Rightarrow>
     (let nullif = opts importOptionNullIf in
      case opts importOptionTemp of
        None \<Rightarrow> (Some (Errorf ''must provide a temporary storage location'' []), [])
      | Some temp \<Rightarrow>
     (case import_sstSize P opts of Inl err \<Rightarrow> (Some err, []) | Inr sstSize \<Rightarrow>
     (case import_create P of Inl err \<Rightarrow> (Some err, []) | Inr create \<Rightarrow>
     (case makeCSVTableDescriptor (MakeTableDesc P) create (defaultCSVParentID P)
             (defaultCSVTableID P) walltime of
        Inl err \<Rightarrow> (Some err, [])
      | Inr tableDesc \<Rightarrow>
     (case importJobDescription P (Defs create) files opts of
        Inl err \<Rightarrow> (Some err, [])
      | Inr jobDesc \<Rightarrow>
          import_run P opts files transformOnly targetDB comma comment nullif temp sstSize
            tableDesc walltime))))))))))"

section \<open>The sampler of readCSVProcessor\<close>

text \<open>
  A \<open>float64\<close> is taken as the real number it denotes. Converting a length or an \<open>int32\<close>
  to \<open>float64\<close> is exact; the division rounds, and is the parameter \<open>fdiv\<close>. The random source
  \<open>rnd\<close> is the sequence of the values that its calls of \<open>Float64\<close> return, each of them in
  [0, 1). A \<open>sampleFunc\<close> is given the number of draws made so far and returns it updated.
\<close>

type_synonym float64 = real

type_synonym sampleFunc = "nat \<Rightarrow> KeyValue \<Rightarrow> bool \<times> nat"

record sampleRate =
  sr_rnd :: "nat \<Rightarrow> float64"
  sr_sampleSize :: float64

definition sample :: "(float64 \<Rightarrow> float64 \<Rightarrow> float64) \<Rightarrow> sampleRate \<Rightarrow> sampleFunc" where
  "sample fdiv s n keyval =
     (let sz = real (length (Key keyval) + length (RawBytes (Value keyval)));
          prob = fdiv sz (sr_sampleSize s)
      in (prob > sr_rnd s n, n + 1))"

definition sampleAll :: sampleFunc where
  "sampleAll n keyval = (True, n)"

text \<open>The row sent for a KV: its key and its value bytes, as two \<open>DBytes\<close>.\<close>

definition sample_row :: "KeyValue \<Rightarrow> bytes list" where
  "sample_row keyval = [Key keyval, RawBytes (Value keyval)]"

text \<open>
  The goroutine \<open>samplecsv\<close> of \<open>readCSVProcessor.Run\<close>: the loop \<open>for kv := range kvCh\<close>
  with the rows sent on \<open>sampleCh\<close> so far, and the choice of the sampling function from the
  field \<open>sampleSize\<close> (an \<open>int32\<close>) before it.
\<close>

fun samplecsv_loop ::
  "env \<Rightarrow> sampleFunc \<Rightarrow> KeyValue list \<Rightarrow> nat \<Rightarrow> bytes list list
     \<Rightarrow> error option \<times> bytes list list" where
  "samplecsv_loop E fn [] n sampleCh = (None, sampleCh)"
| "samplecsv_loop E fn (keyval # kvCh) n sampleCh =
     (let (admit, n') = fn n keyval
      in if admit
         then (case E (SendSample (length sampleCh)) of
                 Some err \<Rightarrow> (Some err, sampleCh)
               | None \<Rightarrow> samplecsv_loop E fn kvCh n' (sampleCh @ [sample_row keyval]))
         else samplecsv_loop E fn kvCh n' sampleCh)"

definition samplecsv ::
  "env \<Rightarrow> (float64 \<Rightarrow> float64 \<Rightarrow> float64) \<Rightarrow> int \<Rightarrow> (nat \<Rightarrow> float64) \<Rightarrow> KeyValue list
     \<Rightarrow> error option \<times> bytes list list" where
  "samplecsv E fdiv sampleSize rnd kvCh =
     (let fn = (if sampleSize = 0 then sampleAll
                else sample fdiv \<lparr>sr_rnd = rnd, sr_sampleSize = real_of_int sampleSize\<rparr>)
      in samplecsv_loop E fn kvCh 0 [])"

text \<open>The size of a KV as the sampler measures it, and the rows of the KVs whose quotient
  exceeds their draw, the first KV having the draw numbered \<open>n\<close>.\<close>

definition kv_size :: "KeyValue \<Rightarrow> nat" where
  "kv_size keyval = length (Key keyval) + length (RawBytes (Value keyval))"

definition admitted_rows ::
  "(float64 \<Rightarrow> float64 \<Rightarrow> float64) \<Rightarrow> float64 \<Rightarrow> (nat \<Rightarrow> float64) \<Rightarrow> nat \<Rightarrow> KeyValue list
     \<Rightarrow> bytes list list" where
  "admitted_rows fdiv sampleSize rnd n kvs =
     map (sample_row \<circ> fst)
       (filter (\<lambda>(keyval, u). fdiv (real (kv_size keyval)) sampleSize > u)
          (zip kvs (map rnd [n ..< n + length kvs])))"

section \<open>What makeBackup writes for a list of segments\<close>

text \<open>The descriptor entries and the storage writes for the segments \<open>contents\<close>, the
  first of which is numbered \<open>i + 1\<close>.\<close>

fun sst_files :: "externs \<Rightarrow> nat \<Rightarrow> sstContent list \<Rightarrow> BackupDescriptor_File list" where
  "sst_files X i [] = []"
| "sst_files X i (sc # rest) =
     \<lparr>Path = sst_name (i + 1), Span = sc_span sc, Sha512 = SHA512 X (sc_data sc)\<rparr>
       # sst_files X (i + 1) rest"

fun sst_writes :: "nat \<Rightarrow> sstContent list \<Rightarrow> (string \<times> file_content) list" where
  "sst_writes i [] = []"
| "sst_writes i (sc # rest) = (sst_name (i + 1), SstData (sc_data sc)) # sst_writes (i + 1) rest"

section \<open>What writeRocksDB emits\<close>

text \<open>The entry added to the builder for a key and value of the multi-map: stamped with
  the \<open>walltime\<close> parameter.\<close>

definition stamped :: "int \<Rightarrow> Key \<times> bytes \<Rightarrow> MVCCKeyValue" where
  "stamped walltime x =
     \<lparr>kv_Key = \<lparr>mvcc_Key = fst x, mvcc_Timestamp = \<lparr>WallTime = walltime, Logical = 0\<rparr>\<rparr>,
      kv_Value = snd x\<rparr>"

definition entries_bytes :: "MVCCKeyValue list \<Rightarrow> int" where
  "entries_bytes es = sum_list (map kv_bytes es)"

text \<open>Every proper, non-empty prefix of the entries stays within the size limit: the
  builder was not over the limit after any earlier \<open>Add\<close>.\<close>

definition prefixes_within :: "int \<Rightarrow> MVCCKeyValue list \<Rightarrow> bool" where
  "prefixes_within sstMaxSize es =
     list_all (\<lambda>n. entries_bytes (take n es) \<le> sstMaxSize) [1..<length es]"

text \<open>
  A well-formed segment: it holds at least one entry, its size is the byte size of the
  builder, its span runs from its first key to the successor of its last key, and the
  builder was not over the limit before the last entry was added.
\<close>

definition segment_ok :: "int \<Rightarrow> sstContent \<Rightarrow> bool" where
  "segment_ok sstMaxSize sc \<longleftrightarrow>
     sc_data sc \<noteq> [] \<and>
     sc_size sc = entries_bytes (sc_data sc) \<and>
     sc_span sc = \<lparr>span_Key = mvcc_Key (kv_Key (hd (sc_data sc))),
                   EndKey = Next (mvcc_Key (kv_Key (last (sc_data sc))))\<rparr> \<and>
     prefixes_within sstMaxSize (sc_data sc)"

text \<open>The multi-map after the write phase has put all of \<open>kvCh\<close>.\<close>

definition put_all :: "KeyValue list \<Rightarrow> multimap" where
  "put_all kvCh = map (\<lambda>x. (Key x, RawBytes (Value x))) kvCh"

section \<open>Invariants of the iteration phase\<close>

text \<open>The value of \<open>kv\<close> after the second part of the loop body, and the segment that
  \<open>writeSST\<close> sends for a state.\<close>

definition new_kv :: "int \<Rightarrow> Key \<Rightarrow> bytes \<Rightarrow> wr_state \<Rightarrow> MVCCKeyValue" where
  "new_kv wt k v st =
     \<lparr>kv_Key = \<lparr>mvcc_Key = k,
                mvcc_Timestamp = (mvcc_Timestamp (kv_Key (kv st)))\<lparr>WallTime := wt\<rparr>\<rparr>,
      kv_Value = v\<rparr>"

definition segment_of :: "wr_state \<Rightarrow> sstContent" where
  "segment_of st =
     \<lparr>sc_data = entries (sst st), sc_size = DataSize (sst st),
      sc_span = \<lparr>span_Key = bytes_of (firstKey st),
                 EndKey = Next (mvcc_Key (kv_Key (kv st)))\<rparr>\<rparr>"

text \<open>Every segment sent so far is well formed and was over the limit when sent.\<close>

definition safe :: "int \<Rightarrow> wr_state \<Rightarrow> bool" where
  "safe m st \<longleftrightarrow> list_all (\<lambda>sc. segment_ok m sc \<and> m < sc_size sc) (contentCh st)"

text \<open>The invariant at the head of the loop, after the entries \<open>seen\<close> of the iterator.\<close>

definition inv :: "int \<Rightarrow> int \<Rightarrow> (Key \<times> bytes) list \<Rightarrow> wr_state \<Rightarrow> bool" where
  "inv m wt seen st \<longleftrightarrow>
     safe m st \<and>
     DataSize (sst st) = entries_bytes (entries (sst st)) \<and>
     (firstKey st = None \<longleftrightarrow> entries (sst st) = []) \<and>
     (entries (sst st) \<noteq> [] \<longrightarrow>
        firstKey st = Some (mvcc_Key (kv_Key (hd (entries (sst st))))) \<and>
        kv st = last (entries (sst st)) \<and>
        entries_bytes (entries (sst st)) \<le> m) \<and>
     prefixes_within m (entries (sst st)) \<and>
     Logical (mvcc_Timestamp (kv_Key (kv st))) = 0 \<and>
     concat (map sc_data (contentCh st)) @ entries (sst st) = map (stamped wt) seen \<and>
     count st = int (length seen)"

text \<open>No key seen so far is empty, and \<open>lastKey\<close> is nil or one of the keys seen.\<close>

definition keys_ok :: "(Key \<times> bytes) list \<Rightarrow> wr_state \<Rightarrow> bool" where
  "keys_ok seen st \<longleftrightarrow>
     (\<forall>x \<in> set seen. fst x \<noteq> []) \<and> (lastKey st = [] \<or> lastKey st \<in> fst ` set seen)"

text \<open>Every entry of the segments sent and of the builder carries the wall time \<open>wt\<close>.\<close>

definition all_stamped :: "int \<Rightarrow> wr_state \<Rightarrow> bool" where
  "all_stamped wt st \<longleftrightarrow>
     list_all (\<lambda>e. WallTime (mvcc_Timestamp (kv_Key e)) = wt)
       (concat (map sc_data (contentCh st)) @ entries (sst st))"

section \<open>Example inputs\<close>

text \<open>
  The table \<open>CREATE TABLE t (c1 INT PRIMARY KEY, c2 INT)\<close> of the spec's scenarios, with a
  stand-in for \<open>sql.MakeTableDesc\<close> that makes one visible column per column definition
  and looks at nothing else.
\<close>

fun column_of :: "TableDef \<Rightarrow> ColumnDescriptor list" where
  "column_of (ColumnTableDef name typ dflt refs) =
     [\<lparr>col_Name = name, Hidden = False, DefaultExpr = dflt\<rparr>]"
| "column_of (ForeignKeyConstraintTableDef cols tbl) = []"
| "column_of (OtherTableDef d) = []"

definition example_MakeTableDesc :: make_table_desc where
  "example_MakeTableDesc create parentID tableID walltime =
     Inr \<lparr>td_Name = Table create, td_ID = tableID, td_ParentID = parentID,
          Columns = concat (map column_of (Defs create))\<rparr>"

definition example_create :: CreateTable where
  "example_create =
     \<lparr>IfNotExists = False, Table = ''t'', Interleave = None,
      Defs = [ColumnTableDef ''c1'' ''INT PRIMARY KEY'' None None,
              ColumnTableDef ''c2'' ''INT'' None None],
      AsSource = None\<rparr>"

definition example_tableDesc :: TableDescriptor where
  "example_tableDesc =
     \<lparr>td_Name = ''t'', td_ID = 51, td_ParentID = 50,
      Columns = [\<lparr>col_Name = ''c1'', Hidden = False, DefaultExpr = None\<rparr>,
                 \<lparr>col_Name = ''c2'', Hidden = False, DefaultExpr = None\<rparr>]\<rparr>"

text \<open>An environment in which every external call succeeds and the context is never done.\<close>

definition no_faults :: env where
  "no_faults c = None"

text \<open>A KV with the given key and value bytes, as a converter sends it.\<close>

definition example_kv :: "Key \<Rightarrow> bytes \<Rightarrow> KeyValue" where
  "example_kv k v = \<lparr>Key = k, Value = \<lparr>RawBytes = v, val_Timestamp = \<lparr>WallTime = 7, Logical = 0\<rparr>\<rparr>\<rparr>"

text \<open>Scenario 1: the rows \<open>1,10\<close>, \<open>2,20\<close>, \<open>3,30\<close>, converted in some order. Scenario 2
  adds the row \<open>2,99\<close>, a duplicate primary key.\<close>

definition scenario1_source :: csv_source where
  "scenario1_source comma comment dataFile =
     Inr [Inr [''1'', ''10''], Inr [''2'', ''20''], Inr [''3'', ''30'']]"

definition scenario1_kvs :: "KeyValue list" where
  "scenario1_kvs = [example_kv [2] [20], example_kv [1] [10], example_kv [3] [30]]"

definition scenario2_source :: csv_source where
  "scenario2_source comma comment dataFile =
     Inr [Inr [''1'', ''10''], Inr [''2'', ''20''], Inr [''3'', ''30''], Inr [''2'', ''99'']]"

definition scenario2_kvs :: "KeyValue list" where
  "scenario2_kvs =
     [example_kv [2] [20], example_kv [1] [10], example_kv [3] [30], example_kv [2] [99]]"

definition example_externs :: externs where
  "example_externs =
     \<lparr>SHA512 = (\<lambda>d. [of_nat (length d)]),
      TableSpan = (\<lambda>d. \<lparr>span_Key = [of_nat (td_ID d)], EndKey = [of_nat (td_ID d) + 1]\<rparr>),
      BackupDescriptorName = ''BACKUP'',
      BackupFormatInitialVersion = 0,
      GetInfo = ''''\<rparr>"

text \<open>The plan of \<open>IMPORT TABLE t (c1 INT PRIMARY KEY, c2 INT) CSV DATA ('f.csv') WITH
  temp = 'w', transform_only\<close>, whose local transform reports 3 rows, 3 KVs and 1 SST.\<close>

definition example_plan :: plan_env where
  "example_plan =
     \<lparr>optsFn = Inr [importOptionTemp \<mapsto> ''w'', importOptionTransformOnly \<mapsto> ''''],
      filesFn = Inr [''f.csv''],
      Database = '''',
      restoreOptIntoDB = ''into_db'',
      GetSingleRune = (\<lambda>s. Inr 44),
      ParseBytes = (\<lambda>s. Inr 1024),
      RangeMaxBytes = 67108864,
      stmt_Table = ''t'',
      CreateDefs = Some (Defs example_create),
      createFileFn = Inl (External ''no schema file''),
      readCreateTableFromStore = (\<lambda>f. Inl (External ''no schema file'')),
      MakeTableDesc = example_MakeTableDesc,
      defaultCSVParentID = 50,
      defaultCSVTableID = 51,
      importJobDescription = (\<lambda>defs files opts. Inr ''IMPORT TABLE t''),
      job_ID = 1,
      job_Created = None,
      job_Started = None,
      job_FinishedWith = (\<lambda>e. None),
      distributedTransform = (\<lambda>files desc temp comma comment nullif walltime. (1, None)),
      localTransform =
        (\<lambda>parentID desc temp files comma comment nullif sstSize walltime. (3, 3, 1, None)),
      doRestorePlan = (\<lambda>temp db. (None, []))\<rparr>"

text \<open>
  Two further statements: \<open>CREATE TABLE IF NOT EXISTS t (c1 INT PRIMARY KEY, c2 INT
  DEFAULT 0)\<close>, and \<open>CREATE TABLE t (c1 INT PRIMARY KEY, c2 INT REFERENCES other, FOREIGN
  KEY (c2) REFERENCES other)\<close>.
\<close>

definition default_create :: CreateTable where
  "default_create =
     \<lparr>IfNotExists = True, Table = ''t'', Interleave = None,
      Defs = [ColumnTableDef ''c1'' ''INT PRIMARY KEY'' None None,
              ColumnTableDef ''c2'' ''INT'' (Some ''0'') None],
      AsSource = None\<rparr>"




text \<open>A random source whose first draws are 1/4, 3/4 and 0.\<close>

definition example_rnd :: "nat \<Rightarrow> float64" where
  "example_rnd n = (if n = 0 then 1 / 4 else if n = 1 then 3 / 4 else 0)"

text \<open>A random source all of whose draws are \<open>u\<close>.\<close>

definition constant_rnd :: "float64 \<Rightarrow> nat \<Rightarrow> float64" where
  "constant_rnd u n = u"

text \<open>A KV of four bytes.\<close>

definition four_byte_kv :: KeyValue where
  "four_byte_kv = example_kv [1, 2] [3, 4]"

section \<open>Duplicate keys\<close>

text \<open>The keys seen so far are strictly increasing, and with an empty builder \<open>lastKey\<close>
  is the key seen last.\<close>

definition strict :: "(Key \<times> bytes) list \<Rightarrow> wr_state \<Rightarrow> bool" where
  "strict seen st \<longleftrightarrow>
     sorted_wrt (<) (map fst seen) \<and>
     (entries (sst st) = [] \<and> seen \<noteq> [] \<longrightarrow> lastKey st = fst (last seen))"

text \<open>The two errors of \<open>writeRocksDB\<close> for a duplicate key \<open>k\<close>: the one of the check at the
  start of a segment, and the wrapped failure of the builder's \<open>Add\<close>.\<close>

definition duplicate_error :: "Key \<Rightarrow> error \<Rightarrow> bool" where
  "duplicate_error k e \<longleftrightarrow>
     e = Errorf ''duplicate key: %s'' [AKey k] \<or>
     e = Wrapf (External ''keys must be added in order'') errSSTCreationMaybeDuplicateTemplate
           [AKey k]"

section \<open>Row validation in readCSV\<close>









section \<open>The iteration phase of writeRocksDB\<close>

lemma entries_bytes_simps [simp]:
  "entries_bytes [] = 0"
  "entries_bytes (es @ [x]) = entries_bytes es + kv_bytes x"
  by (simp_all add: entries_bytes_def)

lemma prefixes_within_Nil [simp]: "prefixes_within m []"
  by (simp add: prefixes_within_def)

lemma prefixes_within_snoc:
  "prefixes_within m (es @ [x]) \<longleftrightarrow> prefixes_within m es \<and> (es \<noteq> [] \<longrightarrow> entries_bytes es \<le> m)"
proof (cases "es = []")
  case True
  then show ?thesis by (simp add: prefixes_within_def)
next
  case False
  then have l: "[1..<length (es @ [x])] = [1..<length es] @ [length es]"
    by (simp add: Suc_leI)
  have "list_all (\<lambda>n. entries_bytes (take n (es @ [x])) \<le> m) [1..<length es]
        = list_all (\<lambda>n. entries_bytes (take n es) \<le> m) [1..<length es]"
    by (rule list_all_cong) auto
  then show ?thesis
    unfolding prefixes_within_def l using False by simp
qed

lemma kv_bytes_nonneg [simp]: "0 \<le> kv_bytes x"
  by (simp add: kv_bytes_def)

lemma entries_bytes_nonneg [simp]: "0 \<le> entries_bytes es"
  by (induction es) (simp_all add: entries_bytes_def)

text \<open>What each part of the loop body does to the state.\<close>

lemma check_firstKey_result:
  assumes "check_firstKey k st = (r, st1)"
  shows "sst st1 = sst st \<and> contentCh st1 = contentCh st \<and> kv st1 = kv st
       \<and> count st1 = count st \<and> lastKey st1 = lastKey st
       \<and> (r = None \<longrightarrow> firstKey st1 = Some (case firstKey st of None \<Rightarrow> k | Some f \<Rightarrow> f)
                      \<and> (firstKey st = None \<longrightarrow> k \<noteq> lastKey st))
       \<and> (r \<noteq> None \<longrightarrow> r = Some (Errorf ''duplicate key: %s'' [AKey k])
                      \<and> firstKey st = None \<and> k = lastKey st)"
  using assms by (auto simp: check_firstKey_def Let_def split: if_splits)

lemma add_kv_result:
  assumes "add_kv E wt k v st1 = (r, st2)"
  shows "contentCh st2 = contentCh st1 \<and> firstKey st2 = firstKey st1
       \<and> lastKey st2 = lastKey st1 \<and> count st2 = count st1
       \<and> kv st2 = new_kv wt k v st1
       \<and> (r = None \<longrightarrow>
            sst st2 = \<lparr>entries = entries (sst st1) @ [new_kv wt k v st1],
                       DataSize = DataSize (sst st1) + kv_bytes (new_kv wt k v st1)\<rparr>
            \<and> (entries (sst st1) = [] \<or> mvcc_Key (kv_Key (last (entries (sst st1)))) < k))
       \<and> (r \<noteq> None \<longrightarrow> sst st2 = sst st1
            \<and> (\<exists>err. r = Some (Wrapf err errSSTCreationMaybeDuplicateTemplate [AKey k])))"
  using assms
  by (auto simp: add_kv_def new_kv_def sst_Add_def Let_def split: option.splits if_splits)

lemma writeSST_result:
  assumes "writeSST E key endKey st = (r, st')"
  shows "(r \<noteq> None \<and> st' = st) \<or>
         (r = None \<and> st' = st\<lparr>contentCh := contentCh st @
             [\<lparr>sc_data = entries (sst st), sc_size = DataSize (sst st),
               sc_span = \<lparr>span_Key = key, EndKey = endKey\<rparr>\<rparr>]\<rparr>)"
  using assms by (auto simp: writeSST_def Let_def split: option.splits)

lemma flush_if_full_result:
  assumes "flush_if_full E m st2 = (r, st3)"
  shows "(DataSize (sst st2) \<le> m \<and> r = None \<and> st3 = st2)
       \<or> (m < DataSize (sst st2) \<and> r \<noteq> None \<and> st3 = st2)
       \<or> (m < DataSize (sst st2)
           \<and> contentCh st3 = contentCh st2 @ [segment_of st2]
           \<and> firstKey st3 = None \<and> lastKey st3 = mvcc_Key (kv_Key (kv st2))
           \<and> kv st3 = kv st2 \<and> count st3 = count st2
           \<and> (r = None \<longrightarrow> sst st3 = \<lparr>entries = [], DataSize = 0\<rparr>)
           \<and> (r \<noteq> None \<longrightarrow> sst st3 = sst st2))"
proof (cases "DataSize (sst st2) \<le> m")
  case True
  then show ?thesis using assms by (simp add: flush_if_full_def)
next
  case False
  obtain r1 st' where w: "writeSST E (bytes_of (firstKey st2)) (Next (mvcc_Key (kv_Key (kv st2)))) st2 = (r1, st')"
    by (metis surj_pair)
  from writeSST_result[OF w] show ?thesis
  proof
    assume "r1 \<noteq> None \<and> st' = st2"
    then show ?thesis using assms False w by (auto simp: flush_if_full_def)
  next
    assume a: "r1 = None \<and> st' = st2\<lparr>contentCh := contentCh st2 @
             [\<lparr>sc_data = entries (sst st2), sc_size = DataSize (sst st2),
               sc_span = \<lparr>span_Key = bytes_of (firstKey st2), EndKey = Next (mvcc_Key (kv_Key (kv st2)))\<rparr>\<rparr>]\<rparr>"
    then show ?thesis using assms False w
      by (auto simp: flush_if_full_def Let_def segment_of_def MakeRocksDBSstFileWriter_new_def
          split: option.splits)
  qed
qed

lemma new_kv_stamped:
  "Logical (mvcc_Timestamp (kv_Key (kv st))) = 0 \<Longrightarrow> new_kv wt k v st = stamped wt (k, v)"
  by (simp add: new_kv_def stamped_def)

lemma step_split:
  assumes "writeRocksDB_step E m wt k v st = (r, st')"
  shows "(r \<noteq> None \<and> st' = st)
       \<or> (\<exists>r1 st1. check_firstKey k (st\<lparr>count := count st + 1\<rparr>) = (r1, st1) \<and>
            ((r1 \<noteq> None \<and> r = r1 \<and> st' = st1)
           \<or> (r1 = None \<and> (\<exists>r2 st2. add_kv E wt k v st1 = (r2, st2) \<and>
                 ((r2 \<noteq> None \<and> r = r2 \<and> st' = st2)
                \<or> (r2 = None \<and> flush_if_full E m st2 = (r, st')))))))"
  using assms
  by (auto simp: writeRocksDB_step_def split: option.splits prod.splits)

lemma segment_ok_segment_of:
  assumes "entries (sst st) \<noteq> []"
      and "DataSize (sst st) = entries_bytes (entries (sst st))"
      and "firstKey st = Some (mvcc_Key (kv_Key (hd (entries (sst st)))))"
      and "kv st = last (entries (sst st))"
      and "prefixes_within m (entries (sst st))"
  shows "segment_ok m (segment_of st)"
  using assms by (simp add: segment_ok_def segment_of_def)

lemma step_inv_state:
  assumes I: "inv m wt seen st"
      and c: "check_firstKey k (st\<lparr>count := count st + 1\<rparr>) = (None, st1)"
      and a: "add_kv E wt k v st1 = (None, st2)"
  shows "safe m st2" and "contentCh st2 = contentCh st"
    and "entries (sst st2) = entries (sst st) @ [stamped wt (k, v)]"
    and "DataSize (sst st2) = entries_bytes (entries (sst st2))"
    and "firstKey st2 = Some (mvcc_Key (kv_Key (hd (entries (sst st2)))))"
    and "kv st2 = stamped wt (k, v)"
    and "prefixes_within m (entries (sst st2))"
    and "count st2 = int (length (seen @ [(k, v)]))"
proof -
  note C = check_firstKey_result[OF c]
  note A = add_kv_result[OF a]
  have kv1: "new_kv wt k v st1 = stamped wt (k, v)"
    using I C by (intro new_kv_stamped) (simp add: inv_def)
  have e: "entries (sst st2) = entries (sst st) @ [stamped wt (k, v)]"
    using A C kv1 by simp
  have d: "DataSize (sst st2) = entries_bytes (entries (sst st2))"
    using A C kv1 I by (simp add: inv_def)
  have f: "firstKey st2 = Some (mvcc_Key (kv_Key (hd (entries (sst st2)))))"
  proof (cases "entries (sst st) = []")
    case True
    then have "firstKey st = None" using I by (simp add: inv_def)
    then show ?thesis using A C e True by (simp add: stamped_def)
  next
    case False
    then have "firstKey st = Some (mvcc_Key (kv_Key (hd (entries (sst st)))))"
      using I by (simp add: inv_def)
    then show ?thesis using A C e False by simp
  qed
  have p: "prefixes_within m (entries (sst st2))"
    using I e by (simp add: prefixes_within_snoc inv_def)
  have s: "safe m st2" using I A C by (simp add: inv_def safe_def)
  show "safe m st2" by (rule s)
  show "contentCh st2 = contentCh st" using A C by simp
  show "entries (sst st2) = entries (sst st) @ [stamped wt (k, v)]" by (rule e)
  show "DataSize (sst st2) = entries_bytes (entries (sst st2))" by (rule d)
  show "firstKey st2 = Some (mvcc_Key (kv_Key (hd (entries (sst st2)))))" by (rule f)
  show "kv st2 = stamped wt (k, v)" using A kv1 by simp
  show "prefixes_within m (entries (sst st2))" by (rule p)
  show "count st2 = int (length (seen @ [(k, v)]))" using A C I by (simp add: inv_def)
qed

lemma step_inv:
  assumes I: "inv m wt seen st"
      and s: "writeRocksDB_step E m wt k v st = (None, st')"
  shows "inv m wt (seen @ [(k, v)]) st'"
proof -
  from step_split[OF s] obtain st1 st2 where
    c: "check_firstKey k (st\<lparr>count := count st + 1\<rparr>) = (None, st1)" and
    a: "add_kv E wt k v st1 = (None, st2)" and
    f: "flush_if_full E m st2 = (None, st')"
    by auto
  note S = step_inv_state[OF I c a]
  have cc: "concat (map sc_data (contentCh st)) @ entries (sst st) = map (stamped wt) seen"
    using I by (simp add: inv_def)
  from flush_if_full_result[OF f] show ?thesis
  proof (elim disjE)
    assume "DataSize (sst st2) \<le> m \<and> None = None \<and> st' = st2"
    then have le: "entries_bytes (entries (sst st2)) \<le> m" and eq: "st' = st2"
      using S(4) by simp_all
    have l0: "Logical (mvcc_Timestamp (kv_Key (kv st2))) = 0"
      using S(6) by (simp add: stamped_def)
    have ne: "entries (sst st2) \<noteq> []" using S(3) by simp
    have la: "kv st2 = last (entries (sst st2))" using S(3,6) by simp
    have co: "concat (map sc_data (contentCh st2)) @ entries (sst st2)
                = map (stamped wt) (seen @ [(k, v)])"
      using S(2,3) cc by simp
    show ?thesis unfolding eq inv_def
      using S(1) S(4) S(5) S(7) S(8) le l0 ne la co by simp
  next
    assume "m < DataSize (sst st2) \<and> None \<noteq> None \<and> st' = st2"
    then show ?thesis by simp
  next
    assume F: "m < DataSize (sst st2)
           \<and> contentCh st' = contentCh st2 @ [segment_of st2]
           \<and> firstKey st' = None \<and> lastKey st' = mvcc_Key (kv_Key (kv st2))
           \<and> kv st' = kv st2 \<and> count st' = count st2
           \<and> (None = None \<longrightarrow> sst st' = \<lparr>entries = [], DataSize = 0\<rparr>)
           \<and> (None \<noteq> None \<longrightarrow> sst st' = sst st2)"
    have ne: "entries (sst st2) \<noteq> []" using S(3) by simp
    have la: "kv st2 = last (entries (sst st2))" using S(3,6) by simp
    have ok: "segment_ok m (segment_of st2)"
      using ne S(4) S(5) la S(7) by (rule segment_ok_segment_of)
    have sz: "m < sc_size (segment_of st2)" using F by (simp add: segment_of_def)
    have dt: "sc_data (segment_of st2) = entries (sst st) @ [stamped wt (k, v)]"
      using S(3) by (simp add: segment_of_def)
    have l0: "Logical (mvcc_Timestamp (kv_Key (kv st'))) = 0"
      using F S(6) by (simp add: stamped_def)
    have sf: "safe m st'" using F S(1) ok sz by (simp add: safe_def)
    have co: "concat (map sc_data (contentCh st')) @ entries (sst st')
                = map (stamped wt) (seen @ [(k, v)])"
      using F S(2) dt cc by simp
    have cn: "count st' = int (length (seen @ [(k, v)]))" using F S(8) by simp
    show ?thesis unfolding inv_def using F sf l0 co cn by simp
  qed
qed

lemma step_safe:
  assumes I: "inv m wt seen st"
      and s: "writeRocksDB_step E m wt k v st = (r, st')"
  shows "safe m st'"
proof -
  have s0: "safe m st" using I by (simp add: inv_def)
  from step_split[OF s] show ?thesis
  proof (elim disjE exE conjE)
    assume "st' = st" then show ?thesis using s0 by simp
  next
    fix r1 st1
    assume "check_firstKey k (st\<lparr>count := count st + 1\<rparr>) = (r1, st1)" "st' = st1"
    then show ?thesis using s0 check_firstKey_result[of k "st\<lparr>count := count st + 1\<rparr>" r1 st1]
      by (simp add: safe_def)
  next
    fix r1 st1 r2 st2
    assume "check_firstKey k (st\<lparr>count := count st + 1\<rparr>) = (r1, st1)"
      "add_kv E wt k v st1 = (r2, st2)" "st' = st2"
    then show ?thesis using s0 check_firstKey_result[of k "st\<lparr>count := count st + 1\<rparr>" r1 st1]
      add_kv_result[of E wt k v st1 r2 st2]
      by (simp add: safe_def)
  next
    fix r1 st1 r2 st2
    assume c: "check_firstKey k (st\<lparr>count := count st + 1\<rparr>) = (r1, st1)" and "r1 = None"
      and a: "add_kv E wt k v st1 = (r2, st2)" and "r2 = None"
      and f: "flush_if_full E m st2 = (r, st')"
    then have c': "check_firstKey k (st\<lparr>count := count st + 1\<rparr>) = (None, st1)"
      and a': "add_kv E wt k v st1 = (None, st2)" by simp_all
    note S = step_inv_state[OF I c' a']
    from flush_if_full_result[OF f] show ?thesis
    proof (elim disjE)
      assume "DataSize (sst st2) \<le> m \<and> r = None \<and> st' = st2"
      then show ?thesis using S(1) by simp
    next
      assume "m < DataSize (sst st2) \<and> r \<noteq> None \<and> st' = st2"
      then show ?thesis using S(1) by simp
    next
      assume F: "m < DataSize (sst st2)
           \<and> contentCh st' = contentCh st2 @ [segment_of st2]
           \<and> firstKey st' = None \<and> lastKey st' = mvcc_Key (kv_Key (kv st2))
           \<and> kv st' = kv st2 \<and> count st' = count st2
           \<and> (r = None \<longrightarrow> sst st' = \<lparr>entries = [], DataSize = 0\<rparr>)
           \<and> (r \<noteq> None \<longrightarrow> sst st' = sst st2)"
      have ne: "entries (sst st2) \<noteq> []" using S(3) by simp
      have la: "kv st2 = last (entries (sst st2))" using S(3,6) by simp
      have ok: "segment_ok m (segment_of st2)"
        using ne S(4) S(5) la S(7) by (rule segment_ok_segment_of)
      have sz: "m < sc_size (segment_of st2)" using F by (simp add: segment_of_def)
      show ?thesis using F S(1) ok sz by (simp add: safe_def)
    qed
  qed
qed

lemma not_less_Nil_key: "\<not> (k::Key) < []"
  by simp

lemma le_Nil_key: "(k::Key) \<le> [] \<Longrightarrow> k = []"
  by simp

lemma step_keys_ok:
  assumes I: "inv m wt seen st" and K: "keys_ok seen st"
      and le: "\<forall>x \<in> set seen. fst x \<le> k"
      and s: "writeRocksDB_step E m wt k v st = (None, st')"
  shows "keys_ok (seen @ [(k, v)]) st'"
proof -
  from step_split[OF s] obtain st1 st2 where
    c: "check_firstKey k (st\<lparr>count := count st + 1\<rparr>) = (None, st1)" and
    a: "add_kv E wt k v st1 = (None, st2)" and
    f: "flush_if_full E m st2 = (None, st')"
    by auto
  note C = check_firstKey_result[OF c]
  note A = add_kv_result[OF a]
  have k_ne: "k \<noteq> []"
  proof (cases "firstKey st = None")
    case True
    then have ne: "k \<noteq> lastKey st" using C by simp
    show ?thesis
    proof (cases "lastKey st = []")
      case True
      then show ?thesis using ne by simp
    next
      case False
      then obtain x where x: "x \<in> set seen" "lastKey st = fst x"
        using K by (auto simp: keys_ok_def)
      then have "fst x \<noteq> []" "fst x \<le> k" using K le by (auto simp: keys_ok_def)
      then show ?thesis using le_Nil_key by blast
    qed
  next
    case False
    then have "entries (sst st) \<noteq> []" using I by (auto simp: inv_def)
    then have "mvcc_Key (kv_Key (last (entries (sst st)))) < k" using A C by simp
    then show ?thesis using not_less_Nil_key by blast
  qed
  have lk: "lastKey st' = lastKey st \<or> lastKey st' = k"
    using flush_if_full_result[OF f] A C by (auto simp: new_kv_def)
  show ?thesis using K k_ne lk by (force simp: keys_ok_def)
qed

lemma iterate_inv:
  assumes "inv m wt seen st"
      and "writeRocksDB_iterate E m wt items st = (r, st')"
  shows "safe m st' \<and> (r = None \<longrightarrow> inv m wt (seen @ items) st')"
  using assms
proof (induction items arbitrary: seen st)
  case Nil
  then show ?case by (auto simp: inv_def split: option.splits)
next
  case (Cons x items)
  obtain k v where x: "x = (k, v)" by (cases x)
  obtain r1 st1 where s: "writeRocksDB_step E m wt k v st = (r1, st1)" by (metis surj_pair)
  show ?case
  proof (cases r1)
    case None
    have I1: "inv m wt (seen @ [(k, v)]) st1" using step_inv[OF Cons.prems(1)] s None by simp
    have "writeRocksDB_iterate E m wt items st1 = (r, st')"
      using Cons.prems(2) s None x by simp
    from Cons.IH[OF I1 this] show ?thesis using x by simp
  next
    case (Some e)
    then have "st' = st1" using Cons.prems(2) s x by simp
    moreover have "r \<noteq> None" using Cons.prems(2) s x Some by auto
    ultimately show ?thesis using step_safe[OF Cons.prems(1) s] by auto
  qed
qed

lemma iterate_keys_ok:
  assumes "inv m wt seen st" and "keys_ok seen st"
      and "sorted (map fst items)" and "\<forall>x \<in> set seen. \<forall>y \<in> set items. fst x \<le> fst y"
      and "writeRocksDB_iterate E m wt items st = (None, st')"
  shows "keys_ok (seen @ items) st'"
  using assms
proof (induction items arbitrary: seen st)
  case Nil
  then show ?case by (auto split: option.splits)
next
  case (Cons x items)
  obtain k v where x: "x = (k, v)" by (cases x)
  obtain r1 st1 where s: "writeRocksDB_step E m wt k v st = (r1, st1)" by (metis surj_pair)
  have r1: "r1 = None" using Cons.prems(5) s x by (cases r1) auto
  have s': "writeRocksDB_step E m wt k v st = (None, st1)" using s r1 by simp
  have le: "\<forall>y \<in> set seen. fst y \<le> k" using Cons.prems(4) x by simp
  have I1: "inv m wt (seen @ [(k, v)]) st1" by (rule step_inv[OF Cons.prems(1) s'])
  have K1: "keys_ok (seen @ [(k, v)]) st1"
    by (rule step_keys_ok[OF Cons.prems(1) Cons.prems(2) le s'])
  have so: "sorted (map fst items)" using Cons.prems(3) by simp
  have le1: "\<forall>a \<in> set (seen @ [(k, v)]). \<forall>y \<in> set items. fst a \<le> fst y"
    using Cons.prems(3,4) x by auto
  have it: "writeRocksDB_iterate E m wt items st1 = (None, st')"
    using Cons.prems(5) s' x by simp
  from Cons.IH[OF I1 K1 so le1 it] show ?case using x by simp
qed

lemma inv_initial: "inv m wt [] (initial_state \<lparr>entries = [], DataSize = 0\<rparr> now)"
  by (simp add: inv_def safe_def initial_state_def)

lemma keys_ok_initial: "keys_ok [] (initial_state w now)"
  by (simp add: keys_ok_def initial_state_def)

lemma entries_bytes_pos:
  assumes "es \<noteq> []" and "\<forall>e \<in> set es. mvcc_Key (kv_Key e) \<noteq> []"
  shows "0 < entries_bytes es"
proof -
  obtain ys y where es: "es = ys @ [y]" using assms(1) by (cases es rule: rev_cases) auto
  have "0 < kv_bytes y" using assms(2) es
    by (cases "mvcc_Key (kv_Key y)") (simp_all add: kv_bytes_def)
  then show ?thesis using es entries_bytes_nonneg[of ys] by (simp add: add_nonneg_pos)
qed

lemma builder_nonempty_pos:
  assumes I: "inv m wt seen st" and K: "keys_ok seen st" and ne: "entries (sst st) \<noteq> []"
  shows "0 < DataSize (sst st)"
proof -
  have eq: "concat (map sc_data (contentCh st)) @ entries (sst st) = map (stamped wt) seen"
    using I by (simp add: inv_def)
  have "set (entries (sst st)) \<subseteq> set (concat (map sc_data (contentCh st)) @ entries (sst st))"
    by simp
  then have "set (entries (sst st)) \<subseteq> stamped wt ` set seen"
    unfolding eq by simp
  moreover have "mvcc_Key (kv_Key (stamped wt x)) \<noteq> []" if "x \<in> set seen" for x
    using K that by (simp add: keys_ok_def stamped_def)
  ultimately have "\<forall>e \<in> set (entries (sst st)). mvcc_Key (kv_Key e) \<noteq> []"
    by blast
  from entries_bytes_pos[OF ne this] show ?thesis using I by (simp add: inv_def)
qed

lemma writeRocksDB_put_result:
  "writeRocksDB_put E n kvCh m0 = Inr store \<Longrightarrow> store = m0 @ put_all kvCh"
proof (induction kvCh arbitrary: n m0)
  case Nil
  then show ?case by (simp add: put_all_def)
next
  case (Cons x kvCh)
  from Cons.prems have "writeRocksDB_put E (Suc n) kvCh (multimap_Put m0 (Key x) (RawBytes (Value x)))
                          = Inr store"
    by (simp split: option.splits)
  from Cons.IH[OF this] show ?case by (simp add: put_all_def multimap_Put_def)
qed

lemma safe_lists:
  "safe m st \<Longrightarrow> list_all (segment_ok m) (contentCh st)
                 \<and> list_all (\<lambda>sc. m < sc_size sc) (contentCh st)"
  by (simp add: safe_def list_all_iff)

lemma list_all_butlast: "list_all P xs \<Longrightarrow> list_all P (butlast xs)"
  by (auto simp: list_all_iff dest: in_set_butlastD)

lemma writeRocksDB_after_iterate:
  assumes I: "inv m wt items st1" and K: "keys_ok items st1"
      and fin: "(if DataSize (sst st1) > 0
                 then (case writeSST E (bytes_of (firstKey st1))
                              (Next (mvcc_Key (kv_Key (kv st1)))) st1 of
                         (Some e, st') \<Rightarrow> (Inl e, st')
                       | (None, st') \<Rightarrow> (Inr (count st'), st'))
                 else (Inr (count st1), st1)) = (res, st)"
  shows "list_all (segment_ok m) (contentCh st)
       \<and> list_all (\<lambda>sc. m < sc_size sc) (butlast (contentCh st))
       \<and> (\<forall>n. res = Inr n \<longrightarrow> n = int (length items)
             \<and> concat (map sc_data (contentCh st)) = map (stamped wt) items)"
proof (cases "DataSize (sst st1) > 0")
  case False
  then have st: "st = st1" and res: "res = Inr (count st1)" using fin by auto
  have "entries (sst st1) = []" using builder_nonempty_pos[OF I K] False by auto
  then have "concat (map sc_data (contentCh st1)) = map (stamped wt) items"
    using I by (simp add: inv_def)
  moreover have "count st1 = int (length items)" using I by (simp add: inv_def)
  moreover have "safe m st1" using I by (simp add: inv_def)
  ultimately show ?thesis using st res safe_lists[of m st1] list_all_butlast by auto
next
  case True
  obtain r2 st2 where w: "writeSST E (bytes_of (firstKey st1))
                              (Next (mvcc_Key (kv_Key (kv st1)))) st1 = (r2, st2)"
    by (metis surj_pair)
  have sf: "safe m st1" using I by (simp add: inv_def)
  from writeSST_result[OF w] show ?thesis
  proof
    assume a: "r2 \<noteq> None \<and> st2 = st1"
    then have "st = st1" and "\<exists>e. res = Inl e" using fin True w by auto
    then show ?thesis using safe_lists[OF sf] list_all_butlast by auto
  next
    assume a: "r2 = None \<and> st2 = st1\<lparr>contentCh := contentCh st1 @
             [\<lparr>sc_data = entries (sst st1), sc_size = DataSize (sst st1),
               sc_span = \<lparr>span_Key = bytes_of (firstKey st1),
                          EndKey = Next (mvcc_Key (kv_Key (kv st1)))\<rparr>\<rparr>]\<rparr>"
    then have st: "st = st1\<lparr>contentCh := contentCh st1 @ [segment_of st1]\<rparr>"
      and res: "res = Inr (count st1)"
      using fin True w by (auto simp: segment_of_def)
    have ne: "entries (sst st1) \<noteq> []"
    proof
      assume "entries (sst st1) = []"
      then have "DataSize (sst st1) = 0" using I by (simp add: inv_def)
      then show False using True by simp
    qed
    have ok: "segment_ok m (segment_of st1)"
      using ne I by (intro segment_ok_segment_of) (simp_all add: inv_def)
    have co: "concat (map sc_data (contentCh st)) = map (stamped wt) items"
      using st I by (simp add: inv_def segment_of_def)
    have cn: "count st1 = int (length items)" using I by (simp add: inv_def)
    have l1: "list_all (segment_ok m) (contentCh st)"
      using st ok safe_lists[OF sf] by simp
    have l2: "list_all (\<lambda>sc. m < sc_size sc) (butlast (contentCh st))"
      using st safe_lists[OF sf] by (simp add: butlast_append)
    show ?thesis using l1 l2 co cn res by simp
  qed
qed

lemma NewIterator_sorted: "sorted (map fst (NewIterator m))"
  by (simp add: NewIterator_def)

lemma NewIterator_length: "length (NewIterator m) = length m"
  by (simp add: NewIterator_def)

lemma all_stamped_cong:
  "contentCh st' = contentCh st \<Longrightarrow> sst st' = sst st \<Longrightarrow> all_stamped wt st' = all_stamped wt st"
  by (simp add: all_stamped_def)

lemma inv_all_stamped: "inv m wt seen st \<Longrightarrow> all_stamped wt st"
  by (simp add: inv_def all_stamped_def list_all_iff stamped_def del: list_all_append)

lemma step_all_stamped:
  assumes I: "inv m wt seen st"
      and s: "writeRocksDB_step E m wt k v st = (r, st')"
  shows "all_stamped wt st'"
proof -
  have s0: "all_stamped wt st" using I by (rule inv_all_stamped)
  from step_split[OF s] show ?thesis
  proof (elim disjE exE conjE)
    assume "st' = st" then show ?thesis using s0 by simp
  next
    fix r1 st1
    assume "check_firstKey k (st\<lparr>count := count st + 1\<rparr>) = (r1, st1)" "st' = st1"
    then show ?thesis using s0 check_firstKey_result[of k "st\<lparr>count := count st + 1\<rparr>" r1 st1]
      by (simp add: all_stamped_def)
  next
    fix r1 st1 r2 st2
    assume "check_firstKey k (st\<lparr>count := count st + 1\<rparr>) = (r1, st1)"
      "add_kv E wt k v st1 = (r2, st2)" "st' = st2" "r2 \<noteq> None"
    then show ?thesis using s0 check_firstKey_result[of k "st\<lparr>count := count st + 1\<rparr>" r1 st1]
      add_kv_result[of E wt k v st1 r2 st2]
      by (simp add: all_stamped_def)
  next
    fix r1 st1 r2 st2
    assume c: "check_firstKey k (st\<lparr>count := count st + 1\<rparr>) = (r1, st1)" and "r1 = None"
      and a: "add_kv E wt k v st1 = (r2, st2)" and "r2 = None"
      and f: "flush_if_full E m st2 = (r, st')"
    then have c': "check_firstKey k (st\<lparr>count := count st + 1\<rparr>) = (None, st1)"
      and a': "add_kv E wt k v st1 = (None, st2)" by simp_all
    note S = step_inv_state[OF I c' a']
    have s2: "all_stamped wt st2"
      using s0 S(2) S(3) by (simp add: all_stamped_def stamped_def)
    from flush_if_full_result[OF f] show ?thesis
    proof (elim disjE)
      assume "DataSize (sst st2) \<le> m \<and> r = None \<and> st' = st2"
      then show ?thesis using s2 by simp
    next
      assume "m < DataSize (sst st2) \<and> r \<noteq> None \<and> st' = st2"
      then show ?thesis using s2 by simp
    next
      assume F: "m < DataSize (sst st2)
           \<and> contentCh st' = contentCh st2 @ [segment_of st2]
           \<and> firstKey st' = None \<and> lastKey st' = mvcc_Key (kv_Key (kv st2))
           \<and> kv st' = kv st2 \<and> count st' = count st2
           \<and> (r = None \<longrightarrow> sst st' = \<lparr>entries = [], DataSize = 0\<rparr>)
           \<and> (r \<noteq> None \<longrightarrow> sst st' = sst st2)"
      show ?thesis
      proof (cases r)
        case None
        then show ?thesis using F s2 by (simp add: all_stamped_def segment_of_def)
      next
        case (Some e)
        then show ?thesis using F s2 by (simp add: all_stamped_def segment_of_def)
      qed
    qed
  qed
qed

lemma iterate_all_stamped:
  assumes "inv m wt seen st"
      and "writeRocksDB_iterate E m wt items st = (r, st')"
  shows "all_stamped wt st'"
  using assms
proof (induction items arbitrary: seen st)
  case Nil
  then have "st' = st" by (auto split: option.splits)
  then show ?case using inv_all_stamped[OF Nil.prems(1)] by simp
next
  case (Cons x items)
  obtain k v where x: "x = (k, v)" by (cases x)
  obtain r1 st1 where s: "writeRocksDB_step E m wt k v st = (r1, st1)" by (metis surj_pair)
  show ?case
  proof (cases r1)
    case None
    have I1: "inv m wt (seen @ [(k, v)]) st1" using step_inv[OF Cons.prems(1)] s None by simp
    have "writeRocksDB_iterate E m wt items st1 = (r, st')"
      using Cons.prems(2) s None x by simp
    from Cons.IH[OF I1 this] show ?thesis .
  next
    case (Some e)
    then have "st' = st1" using Cons.prems(2) s x by simp
    then show ?thesis using step_all_stamped[OF Cons.prems(1) s] by simp
  qed
qed

lemma writeRocksDB_put_bytes_only:
  assumes "\<forall>x. Key (f x) = Key x \<and> RawBytes (Value (f x)) = RawBytes (Value x)"
  shows "writeRocksDB_put E n (map f kvCh) m0 = writeRocksDB_put E n kvCh m0"
  using assms by (induction kvCh arbitrary: n m0) (simp_all split: option.splits)

lemma all_stamped_initial: "all_stamped wt (initial_state \<lparr>entries = [], DataSize = 0\<rparr> now)"
  by (simp add: all_stamped_def initial_state_def)

text \<open>
  Claim C2. For every run of \<open>writeRocksDB\<close>, with any outcome of the external calls:
  every segment sent is well formed (non-empty, its size the builder's byte size, its span
  from its first key to the successor of its last key, and the builder not over
  \<open>sstMaxSize\<close> before its last entry was added); every segment except possibly the last
  had a builder size above \<open>sstMaxSize\<close> when it was sent; and when the function succeeds,
  it returns the number of KVs and the segments hold all of them in sorted order, so that
  a builder left non-empty by the iteration was sent as the final segment.
\<close>

theorem writeRocksDB_segments:
  assumes "writeRocksDB E kvCh sstMaxSize walltime now = (res, st)"
  shows "list_all (segment_ok sstMaxSize) (contentCh st)
       \<and> list_all (\<lambda>sc. sstMaxSize < sc_size sc) (butlast (contentCh st))
       \<and> (\<forall>n. res = Inr n \<longrightarrow> n = int (length kvCh)
             \<and> concat (map sc_data (contentCh st))
                 = map (stamped walltime) (NewIterator (put_all kvCh)))"
proof -
  let ?st0 = "initial_state \<lparr>entries = [], DataSize = 0\<rparr> now"
  let ?items = "NewIterator (put_all kvCh)"
  have trivial: ?thesis if "st = ?st0" and "\<exists>e. res = Inl e"
    using that by (auto simp: initial_state_def)
  show ?thesis
  proof (cases "writeRocksDB_put E 0 kvCh []")
    case (Inl e)
    then show ?thesis using assms by (intro trivial) (auto simp: writeRocksDB_def)
  next
    case (Inr store)
    then have store: "store = put_all kvCh" using writeRocksDB_put_result by fastforce
    show ?thesis
    proof (cases "E WriterClose")
      case (Some e)
      then show ?thesis using assms Inr by (intro trivial) (auto simp: writeRocksDB_def)
    next
      case None
      note close = None
      show ?thesis
      proof (cases "E (MakeRocksDBSstFileWriter 0)")
        case (Some e)
        then show ?thesis using assms Inr close
          by (intro trivial) (auto simp: writeRocksDB_def MakeRocksDBSstFileWriter_new_def)
      next
        case None
        obtain r st1 where it: "writeRocksDB_iterate E sstMaxSize walltime ?items ?st0 = (r, st1)"
          by (metis surj_pair)
        note II = iterate_inv[OF inv_initial it]
        show ?thesis
        proof (cases r)
          case (Some e)
          then have "st = st1"
            using assms Inr close None it store
            by (auto simp: writeRocksDB_def MakeRocksDBSstFileWriter_new_def)
          moreover have "\<exists>e. res = Inl e"
            using assms Inr close None it store Some
            by (auto simp: writeRocksDB_def MakeRocksDBSstFileWriter_new_def)
          ultimately show ?thesis
            using II safe_lists[of sstMaxSize st1] list_all_butlast by auto
        next
          case None
          note r = None
          have I: "inv sstMaxSize walltime ?items st1" using II r by simp
          have K: "keys_ok ?items st1"
            using iterate_keys_ok[OF inv_initial keys_ok_initial NewIterator_sorted _ it[unfolded r]]
            by simp
          have fin: "(if DataSize (sst st1) > 0
                 then (case writeSST E (bytes_of (firstKey st1))
                              (Next (mvcc_Key (kv_Key (kv st1)))) st1 of
                         (Some e, st') \<Rightarrow> (Inl e, st')
                       | (None, st') \<Rightarrow> (Inr (count st'), st'))
                 else (Inr (count st1), st1)) = (res, st)"
            using assms Inr close \<open>E (MakeRocksDBSstFileWriter 0) = None\<close> it store r
            by (simp add: writeRocksDB_def MakeRocksDBSstFileWriter_new_def)
          from writeRocksDB_after_iterate[OF I K fin] show ?thesis
            by (simp add: NewIterator_length put_all_def)
        qed
      qed
    qed
  qed
qed

theorem writeRocksDB_segments_witness:
  "fst (writeRocksDB no_faults scenario1_kvs 3 100 5) = Inr 3
   \<and> map sc_size (contentCh (snd (writeRocksDB no_faults scenario1_kvs 3 100 5))) = [4, 2]
   \<and> map sc_span (contentCh (snd (writeRocksDB no_faults scenario1_kvs 3 100 5)))
       = [\<lparr>span_Key = [1], EndKey = [2, 0]\<rparr>, \<lparr>span_Key = [3], EndKey = [3, 0]\<rparr>]
   \<and> list_all (segment_ok 3) (contentCh (snd (writeRocksDB no_faults scenario1_kvs 3 100 5)))
   \<and> list_all (\<lambda>sc. 3 < sc_size sc)
       (butlast (contentCh (snd (writeRocksDB no_faults scenario1_kvs 3 100 5))))
   \<and> concat (map sc_data (contentCh (snd (writeRocksDB no_faults scenario1_kvs 3 100 5))))
       = map (stamped 100) (NewIterator (put_all scenario1_kvs))"
proof -
  obtain res st where w: "writeRocksDB no_faults scenario1_kvs 3 100 5 = (res, st)"
    by (metis surj_pair)
  have v: "res = Inr 3 \<and> map sc_size (contentCh st) = [4, 2]
         \<and> map sc_span (contentCh st)
             = [\<lparr>span_Key = [1], EndKey = [2, 0]\<rparr>, \<lparr>span_Key = [3], EndKey = [3, 0]\<rparr>]"
    using w[symmetric]
    by (simp add: writeRocksDB_def no_faults_def scenario1_kvs_def example_kv_def
        writeRocksDB_step_def check_firstKey_def add_kv_def flush_if_full_def
        initial_state_def MakeRocksDBSstFileWriter_new_def NewIterator_def multimap_Put_def
        sst_Add_def writeSST_def kv_bytes_def Next_def Let_def)
  from writeRocksDB_segments[OF w] v show ?thesis unfolding w by simp
qed

text \<open>
  Claim C8. For every run of \<open>writeRocksDB\<close>, with any outcome of the external calls,
  every entry added to an SST builder (those of the segments sent and those of the builder
  in use at the end) carries the \<open>walltime\<close> parameter as its wall time; and the run is
  the same whatever timestamps the incoming values carried, since only key and value
  bytes are put into the multi-map.
\<close>

theorem writeRocksDB_walltime:
  assumes "writeRocksDB E kvCh sstMaxSize walltime now = (res, st)"
  shows "list_all (\<lambda>e. WallTime (mvcc_Timestamp (kv_Key e)) = walltime)
           (concat (map sc_data (contentCh st)) @ entries (sst st))
       \<and> writeRocksDB E (map (\<lambda>x. x\<lparr>Value := (Value x)\<lparr>val_Timestamp := ts x\<rparr>\<rparr>) kvCh)
           sstMaxSize walltime now = (res, st)"
proof -
  let ?st0 = "initial_state \<lparr>entries = [], DataSize = 0\<rparr> now"
  let ?f = "\<lambda>x. x\<lparr>Value := (Value x)\<lparr>val_Timestamp := ts x\<rparr>\<rparr>"
  have p: "writeRocksDB_put E 0 (map ?f kvCh) [] = writeRocksDB_put E 0 kvCh []"
    by (rule writeRocksDB_put_bytes_only) simp
  have two: "writeRocksDB E (map ?f kvCh) sstMaxSize walltime now = (res, st)"
    using assms by (simp add: writeRocksDB_def p)
  have one: "all_stamped walltime st"
  proof (cases "writeRocksDB_put E 0 kvCh []")
    case (Inl e)
    then have "st = ?st0" using assms by (auto simp: writeRocksDB_def)
    then show ?thesis using all_stamped_initial by simp
  next
    case (Inr store)
    show ?thesis
    proof (cases "E WriterClose")
      case (Some e)
      then have "st = ?st0" using assms Inr by (auto simp: writeRocksDB_def)
      then show ?thesis using all_stamped_initial by simp
    next
      case None
      note close = None
      show ?thesis
      proof (cases "E (MakeRocksDBSstFileWriter 0)")
        case (Some e)
        then have "st = ?st0" using assms Inr close
          by (auto simp: writeRocksDB_def MakeRocksDBSstFileWriter_new_def)
        then show ?thesis using all_stamped_initial by simp
      next
        case None
        obtain r st1 where it: "writeRocksDB_iterate E sstMaxSize walltime (NewIterator store) ?st0
                                  = (r, st1)"
          by (metis surj_pair)
        have s1: "all_stamped walltime st1" by (rule iterate_all_stamped[OF inv_initial it])
        obtain r2 st2 where w: "writeSST E (bytes_of (firstKey st1))
                              (Next (mvcc_Key (kv_Key (kv st1)))) st1 = (r2, st2)"
          by (metis surj_pair)
        have "st = st1 \<or> st = st2"
          using assms Inr close None it w
          by (auto simp: writeRocksDB_def MakeRocksDBSstFileWriter_new_def
              split: option.splits if_splits)
        moreover have "all_stamped walltime st2"
          using writeSST_result[OF w] s1 by (auto simp: all_stamped_def)
        ultimately show ?thesis using s1 by auto
      qed
    qed
  qed
  show ?thesis using one two by (simp add: all_stamped_def)
qed

theorem writeRocksDB_walltime_witness:
  "list_all (\<lambda>e. WallTime (mvcc_Timestamp (kv_Key e)) = 100)
     (concat (map sc_data (contentCh (snd (writeRocksDB no_faults scenario1_kvs 3 100 5))))
      @ entries (sst (snd (writeRocksDB no_faults scenario1_kvs 3 100 5))))
   \<and> length (concat (map sc_data
        (contentCh (snd (writeRocksDB no_faults scenario1_kvs 3 100 5))))) = 3
   \<and> writeRocksDB no_faults
        (map (\<lambda>x. x\<lparr>Value := (Value x)\<lparr>val_Timestamp := \<lparr>WallTime = 9, Logical = 1\<rparr>\<rparr>\<rparr>)
           scenario1_kvs) 3 100 5
       = writeRocksDB no_faults scenario1_kvs 3 100 5"
proof -
  obtain res st where w: "writeRocksDB no_faults scenario1_kvs 3 100 5 = (res, st)"
    by (metis surj_pair)
  have v: "length (concat (map sc_data (contentCh st))) = 3"
    using w[symmetric]
    by (simp add: writeRocksDB_def no_faults_def scenario1_kvs_def example_kv_def
        writeRocksDB_step_def check_firstKey_def add_kv_def flush_if_full_def
        initial_state_def MakeRocksDBSstFileWriter_new_def NewIterator_def multimap_Put_def
        sst_Add_def writeSST_def kv_bytes_def Next_def Let_def)
  from writeRocksDB_walltime[OF w, of "\<lambda>x. \<lparr>WallTime = 9, Logical = 1\<rparr>"] v
  show ?thesis unfolding w by simp
qed

section \<open>The finalizer\<close>

text \<open>
  Claim C4. When the descriptor's file list is empty, \<open>finalizeCSVBackup\<close> returns the error
  "no files in backup" and writes nothing; so does \<open>makeBackup\<close> when the segment channel
  is closed without a segment.
\<close>

theorem no_files_in_backup:
  "(Files backupDesc = [] \<longrightarrow>
      finalizeCSVBackup E X backupDesc parentID tableDesc es execCfg =
        (Some (Errorf ''no files in backup'' []), backupDesc, es))
   \<and> (E ExportStorageFromURI = None \<longrightarrow>
      makeBackup E X parentID tableDesc es [] walltime execCfg =
        ((0, Some (Errorf ''no files in backup'' [])), empty_BackupDescriptor walltime, es))"
  by (simp add: finalizeCSVBackup_def makeBackup_def empty_BackupDescriptor_def)

theorem no_files_in_backup_witness:
  "finalizeCSVBackup no_faults example_externs (empty_BackupDescriptor 5) 50 example_tableDesc []
       None =
        (Some (Errorf ''no files in backup'' []), empty_BackupDescriptor 5, [])
   \<and> makeBackup no_faults example_externs 50 example_tableDesc [] [] 5 None =
        ((0, Some (Errorf ''no files in backup'' [])), empty_BackupDescriptor 5, [])"
  using no_files_in_backup[of "empty_BackupDescriptor 5" no_faults example_externs 50
      example_tableDesc "[]" None 5]
  by (simp add: empty_BackupDescriptor_def no_faults_def)



lemma length_sst_files [simp]: "length (sst_files X i contents) = length contents"
  by (induction contents arbitrary: i) auto

lemma length_sst_writes [simp]: "length (sst_writes i contents) = length contents"
  by (induction contents arbitrary: i) auto


lemma length_sort_backupFileDescriptors [simp]:
  "length (sort_backupFileDescriptors fs) = length fs"
  by (simp add: sort_backupFileDescriptors_def)

lemma set_sort_backupFileDescriptors [simp]:
  "set (sort_backupFileDescriptors fs) = set fs"
  by (simp add: sort_backupFileDescriptors_def)















section \<open>The result row of a transform-only import\<close>

lemma import_run_transform_only:
  assumes "import_run P opts files True targetDB comma comment nullif temp sstSize tableDesc walltime
             = (None, rows)"
  shows "rows = [[DInt (job_ID P), DString ''succeeded'', DFloat 1, DInt 0, DInt 0, DInt 0, DInt 0]]"
  using assms
  by (simp add: import_run_def StatusSucceeded_def Let_def split: option.splits)

text \<open>
  Claim C10. When the closure returned by \<open>importPlanHook\<close> succeeds and the options hold
  \<open>transform_only\<close>, the single row it sends is the job id, the status "succeeded", the
  fraction 1.0 and four zero counts, whatever the transforms returned.
\<close>

theorem transform_only_result_row:
  assumes "importPlanHook_fn P walltime = (None, rows)"
      and "optsFn P = Inr opts"
      and "opts importOptionTransformOnly \<noteq> None"
  shows "rows = [[DInt (job_ID P), DString ''succeeded'', DFloat 1, DInt 0, DInt 0, DInt 0, DInt 0]]"
proof -
  from assms obtain files targetDB comma comment nullif temp sstSize tableDesc where
    "import_run P opts files True targetDB comma comment nullif temp sstSize tableDesc walltime
       = (None, rows)"
    by (auto simp: importPlanHook_fn_def Let_def split: sum.splits option.splits)
  then show ?thesis by (rule import_run_transform_only)
qed

theorem transform_only_result_row_witness:
  "importPlanHook_fn example_plan 5
     = (None, [[DInt 1, DString ''succeeded'', DFloat 1, DInt 0, DInt 0, DInt 0, DInt 0]])
   \<and> localTransform example_plan 50 example_tableDesc ''w'' [''f.csv''] 0 0 None 33554432 5
       = (3, 3, 1, None)"
proof -
  obtain err rows where f: "importPlanHook_fn example_plan 5 = (err, rows)"
    by (metis surj_pair)
  have e: "err = None"
    using f[symmetric]
    by (simp add: importPlanHook_fn_def example_plan_def import_targetDB_def import_rune_def
        import_sstSize_def import_create_def import_run_def makeCSVTableDescriptor_def
        example_MakeTableDesc_def example_create_def VisibleColumns_def
        importOptionDelimiter_def importOptionComment_def importOptionDistributed_def
        importOptionNullIf_def importOptionTransformOnly_def importOptionSSTSize_def
        importOptionTemp_def Let_def)
  have o: "optsFn example_plan
             = Inr [importOptionTemp \<mapsto> ''w'', importOptionTransformOnly \<mapsto> []]"
    by (simp add: example_plan_def)
  have t: "[importOptionTemp \<mapsto> ''w'', importOptionTransformOnly \<mapsto> []] importOptionTransformOnly
             \<noteq> None"
    by simp
  have j: "job_ID example_plan = 1" by (simp add: example_plan_def)
  from transform_only_result_row[OF f[unfolded e] o t] e j
  show ?thesis unfolding f by (simp add: example_plan_def)
qed

section \<open>Descriptor construction\<close>

lemma find_default_column:
  assumes "col \<in> set cols" and "DefaultExpr col \<noteq> None"
  shows "\<exists>c. find (\<lambda>col. DefaultExpr col \<noteq> None) cols = Some c \<and> c \<in> set cols
             \<and> DefaultExpr c \<noteq> None"
  using assms by (induction cols) auto

lemma makeCSVTableDescriptor_unsupported:
  "IfNotExists create \<Longrightarrow>
     makeCSVTableDescriptor M create parentID tableID walltime
       = Inl (Errorf ''unsupported IF NOT EXISTS'' [])"
  "\<not> IfNotExists create \<Longrightarrow> Interleave create \<noteq> None \<Longrightarrow>
     makeCSVTableDescriptor M create parentID tableID walltime
       = Inl (Errorf ''interleaved not supported'' [])"
  "\<not> IfNotExists create \<Longrightarrow> Interleave create = None \<Longrightarrow> AsSource create \<noteq> None \<Longrightarrow>
     makeCSVTableDescriptor M create parentID tableID walltime
       = Inl (Errorf ''CREATE AS not supported'' [])"
  by (simp_all add: makeCSVTableDescriptor_def)

lemma importPlanHook_fn_descriptor_error:
  assumes "import_create P = Inr create"
      and "makeCSVTableDescriptor (MakeTableDesc P) create (defaultCSVParentID P)
             (defaultCSVTableID P) walltime = Inl err"
  shows "(\<exists>e. importPlanHook_fn P walltime = (Some e, []))
       \<and> importPlanHook_fn (P\<lparr>localTransform := L, distributedTransform := D\<rparr>) walltime
           = importPlanHook_fn P walltime"
proof -
  let ?P' = "P\<lparr>localTransform := L, distributedTransform := D\<rparr>"
  have c: "import_create ?P' = import_create P" by (simp add: import_create_def split: option.splits sum.splits)
  have t: "import_targetDB ?P' = import_targetDB P" by (simp add: import_targetDB_def fun_eq_iff split: option.splits)
  have r: "import_rune ?P' = import_rune P" by (simp add: import_rune_def fun_eq_iff split: option.splits sum.splits)
  have s: "import_sstSize ?P' = import_sstSize P" by (simp add: import_sstSize_def fun_eq_iff split: option.splits)
  have one: "\<exists>e. importPlanHook_fn P walltime = (Some e, [])"
    using assms
    by (simp add: importPlanHook_fn_def Let_def split: sum.splits option.splits)
  have two: "importPlanHook_fn ?P' walltime = importPlanHook_fn P walltime"
    using assms
    by (simp add: importPlanHook_fn_def c t r s Let_def split: sum.splits option.splits)
  show ?thesis using one two by simp
qed

text \<open>
  Claim C5, as amended. When the descriptor made for the statement has a visible column with
  a default expression, \<open>makeCSVTableDescriptor\<close> returns an error and no descriptor; the
  error names the first such column when the statement has none of IF NOT EXISTS,
  INTERLEAVE and AS, which are reported first. The closure of the plan hook then returns
  that error, sends no row, and does not depend on the transforms, which do all the
  reading of CSV data.
\<close>

theorem visible_default_rejected:
  assumes "M create parentID tableID walltime = Inr tableDesc"
      and "col \<in> set (VisibleColumns tableDesc)" and "DefaultExpr col \<noteq> None"
  shows "(\<exists>err. makeCSVTableDescriptor M create parentID tableID walltime = Inl err)
       \<and> (\<not> IfNotExists create \<and> Interleave create = None \<and> AsSource create = None \<longrightarrow>
           (\<exists>c. find (\<lambda>col. DefaultExpr col \<noteq> None) (VisibleColumns tableDesc) = Some c
              \<and> makeCSVTableDescriptor M create parentID tableID walltime
                  = Inl (Errorf ''column %q: DEFAULT expression unsupported''
                           [AStr (col_Name c)])))
       \<and> (\<forall>P L D. import_create P = Inr create \<and> MakeTableDesc P = M
                  \<and> defaultCSVParentID P = parentID \<and> defaultCSVTableID P = tableID \<longrightarrow>
             (\<exists>e. importPlanHook_fn P walltime = (Some e, []))
           \<and> importPlanHook_fn (P\<lparr>localTransform := L, distributedTransform := D\<rparr>) walltime
               = importPlanHook_fn P walltime)"
proof -
  from find_default_column[OF assms(2,3)] obtain c where
    c: "find (\<lambda>col. DefaultExpr col \<noteq> None) (VisibleColumns tableDesc) = Some c" by blast
  have one: "\<exists>err. makeCSVTableDescriptor M create parentID tableID walltime = Inl err"
    using assms(1) c by (simp add: makeCSVTableDescriptor_def)
  have two: "makeCSVTableDescriptor M create parentID tableID walltime
                  = Inl (Errorf ''column %q: DEFAULT expression unsupported'' [AStr (col_Name c)])"
    if "\<not> IfNotExists create \<and> Interleave create = None \<and> AsSource create = None"
    using that assms(1) c by (simp add: makeCSVTableDescriptor_def)
  have three: "(\<exists>e. importPlanHook_fn P walltime = (Some e, []))
           \<and> importPlanHook_fn (P\<lparr>localTransform := L, distributedTransform := D\<rparr>) walltime
               = importPlanHook_fn P walltime"
    if "import_create P = Inr create \<and> MakeTableDesc P = M
          \<and> defaultCSVParentID P = parentID \<and> defaultCSVTableID P = tableID" for P L D
  proof -
    from one obtain err where "makeCSVTableDescriptor M create parentID tableID walltime = Inl err"
      by blast
    then have "makeCSVTableDescriptor (MakeTableDesc P) create (defaultCSVParentID P)
             (defaultCSVTableID P) walltime = Inl err" using that by simp
    from importPlanHook_fn_descriptor_error[OF _ this] that show ?thesis by simp
  qed
  show ?thesis using one two c three by blast
qed

theorem visible_default_rejected_witness:
  "makeCSVTableDescriptor example_MakeTableDesc (default_create\<lparr>IfNotExists := False\<rparr>) 50 51 0
     = Inl (Errorf ''column %q: DEFAULT expression unsupported'' [AStr ''c2''])
   \<and> (\<exists>err. makeCSVTableDescriptor example_MakeTableDesc default_create 50 51 0 = Inl err)
   \<and> importPlanHook_fn (example_plan\<lparr>CreateDefs := Some (Defs default_create)\<rparr>) 5
       = (Some (Errorf ''column %q: DEFAULT expression unsupported'' [AStr ''c2'']), [])"
proof -
  let ?c2 = "\<lparr>col_Name = ''c2'', Hidden = False, DefaultExpr = Some ''0''\<rparr>"
  let ?td = "\<lparr>td_Name = ''t'', td_ID = 51, td_ParentID = 50,
              Columns = [\<lparr>col_Name = ''c1'', Hidden = False, DefaultExpr = None\<rparr>, ?c2]\<rparr>"
  have m1: "example_MakeTableDesc (default_create\<lparr>IfNotExists := False\<rparr>) 50 51 0 = Inr ?td"
    by (simp add: example_MakeTableDesc_def default_create_def)
  have m2: "example_MakeTableDesc default_create 50 51 0 = Inr ?td"
    by (simp add: example_MakeTableDesc_def default_create_def)
  have v: "?c2 \<in> set (VisibleColumns ?td)" by (simp add: VisibleColumns_def)
  have d: "DefaultExpr ?c2 \<noteq> None" by simp
  have f: "find (\<lambda>col. DefaultExpr col \<noteq> None) (VisibleColumns ?td) = Some ?c2"
    by (simp add: VisibleColumns_def)
  have g: "\<not> IfNotExists (default_create\<lparr>IfNotExists := False\<rparr>)
         \<and> Interleave (default_create\<lparr>IfNotExists := False\<rparr>) = None
         \<and> AsSource (default_create\<lparr>IfNotExists := False\<rparr>) = None"
    by (simp add: default_create_def)
  have one: "makeCSVTableDescriptor example_MakeTableDesc (default_create\<lparr>IfNotExists := False\<rparr>)
               50 51 0
     = Inl (Errorf ''column %q: DEFAULT expression unsupported'' [AStr ''c2''])"
    using visible_default_rejected[of example_MakeTableDesc
        "default_create\<lparr>IfNotExists := False\<rparr>" 50 51 0 "?td" "?c2"] m1 v d g f
    by auto
  have two: "\<exists>err. makeCSVTableDescriptor example_MakeTableDesc default_create 50 51 0 = Inl err"
    using visible_default_rejected[of example_MakeTableDesc default_create 50 51 0 "?td" "?c2"]
      m2 v d
    by blast
  have three: "importPlanHook_fn (example_plan\<lparr>CreateDefs := Some (Defs default_create)\<rparr>) 5
       = (Some (Errorf ''column %q: DEFAULT expression unsupported'' [AStr ''c2'']), [])"
    by (simp add: importPlanHook_fn_def example_plan_def import_targetDB_def import_rune_def
        import_sstSize_def import_create_def makeCSVTableDescriptor_def
        example_MakeTableDesc_def default_create_def VisibleColumns_def
        importOptionDelimiter_def importOptionComment_def importOptionDistributed_def
        importOptionNullIf_def importOptionTransformOnly_def importOptionSSTSize_def
        importOptionTemp_def Let_def)
  show ?thesis using one two three by simp
qed

text \<open>
  The claim as first stated fails for \<open>CREATE TABLE IF NOT EXISTS t (c1 INT PRIMARY KEY, c2
  INT DEFAULT 0)\<close>: the visible column \<open>c2\<close> has a default, and the error returned is
  "unsupported IF NOT EXISTS", which names no column.
\<close>

theorem default_error_names_column_counterexample:
  "example_MakeTableDesc default_create 50 51 0
     = Inr \<lparr>td_Name = ''t'', td_ID = 51, td_ParentID = 50,
            Columns = [\<lparr>col_Name = ''c1'', Hidden = False, DefaultExpr = None\<rparr>,
                       \<lparr>col_Name = ''c2'', Hidden = False, DefaultExpr = Some ''0''\<rparr>]\<rparr>
   \<and> \<lparr>col_Name = ''c2'', Hidden = False, DefaultExpr = Some ''0''\<rparr>
       \<in> set (VisibleColumns
                \<lparr>td_Name = ''t'', td_ID = 51, td_ParentID = 50,
                 Columns = [\<lparr>col_Name = ''c1'', Hidden = False, DefaultExpr = None\<rparr>,
                            \<lparr>col_Name = ''c2'', Hidden = False, DefaultExpr = Some ''0''\<rparr>]\<rparr>)
   \<and> makeCSVTableDescriptor example_MakeTableDesc default_create 50 51 0
       = Inl (Errorf ''unsupported IF NOT EXISTS'' [])
   \<and> args (Errorf ''unsupported IF NOT EXISTS'' []) = []"
  by (simp add: example_MakeTableDesc_def default_create_def VisibleColumns_def
      makeCSVTableDescriptor_def)



section \<open>The sampler\<close>

lemma samplecsv_loop_sampleAll:
  assumes "samplecsv_loop E sampleAll kvs n ch = (err, rows)"
  shows "prefix rows (ch @ map sample_row kvs)
       \<and> (err = None \<longrightarrow> rows = ch @ map sample_row kvs)
       \<and> ((\<forall>i. E (SendSample i) = None) \<longrightarrow> err = None)"
  using assms
proof (induction kvs arbitrary: n ch)
  case Nil
  then show ?case by simp
next
  case (Cons keyval kvs)
  have fn: "sampleAll n keyval = (True, n)" by (simp add: sampleAll_def)
  show ?case
  proof (cases "E (SendSample (length ch))")
    case (Some e)
    then have "err = Some e \<and> rows = ch" using Cons.prems fn by auto
    then show ?thesis using Some by auto
  next
    case None
    then have "samplecsv_loop E sampleAll kvs n (ch @ [sample_row keyval]) = (err, rows)"
      using Cons.prems fn by simp
    from Cons.IH[OF this] show ?thesis by simp
  qed
qed

lemma admitted_rows_Cons:
  "admitted_rows fdiv ss rnd n (keyval # kvs) =
     (if fdiv (real (kv_size keyval)) ss > rnd n then [sample_row keyval] else [])
       @ admitted_rows fdiv ss rnd (n + 1) kvs"
proof -
  have "[n ..< n + length (keyval # kvs)] = n # [n + 1 ..< (n + 1) + length kvs]"
    by (subst upt_conv_Cons) simp_all
  then show ?thesis by (simp add: admitted_rows_def)
qed

lemma samplecsv_loop_sample:
  assumes "samplecsv_loop E (sample fdiv \<lparr>sr_rnd = rnd, sr_sampleSize = ss\<rparr>) kvs n ch
             = (err, rows)"
  shows "prefix rows (ch @ admitted_rows fdiv ss rnd n kvs)
       \<and> (err = None \<longrightarrow> rows = ch @ admitted_rows fdiv ss rnd n kvs)
       \<and> ((\<forall>i. E (SendSample i) = None) \<longrightarrow> err = None)"
  using assms
proof (induction kvs arbitrary: n ch)
  case Nil
  then show ?case by (simp add: admitted_rows_def)
next
  case (Cons keyval kvs)
  let ?fn = "sample fdiv \<lparr>sr_rnd = rnd, sr_sampleSize = ss\<rparr>"
  have fn: "?fn n keyval = (fdiv (real (kv_size keyval)) ss > rnd n, n + 1)"
    by (simp add: sample_def kv_size_def Let_def)
  show ?case
  proof (cases "fdiv (real (kv_size keyval)) ss > rnd n")
    case False
    then have "samplecsv_loop E ?fn kvs (n + 1) ch = (err, rows)"
      using Cons.prems fn by simp
    from Cons.IH[OF this] show ?thesis using False by (simp add: admitted_rows_Cons)
  next
    case True
    note adm = this
    show ?thesis
    proof (cases "E (SendSample (length ch))")
      case (Some e)
      then have "err = Some e \<and> rows = ch" using Cons.prems fn adm by auto
      then show ?thesis using Some by auto
    next
      case None
      then have "samplecsv_loop E ?fn kvs (n + 1) (ch @ [sample_row keyval]) = (err, rows)"
        using Cons.prems fn adm by simp
      from Cons.IH[OF this] show ?thesis using adm by (simp add: admitted_rows_Cons)
    qed
  qed
qed

text \<open>
  Claim C9, as amended. With a \<open>sampleSize\<close> of zero the sampler admits every KV. With
  another \<open>sampleSize\<close> it makes one draw per KV and admits the KV exactly when the quotient
  of its size (the bytes of its key and of its value) by \<open>sampleSize\<close> exceeds that draw.
  The rows sent are those of the admitted KVs, in order, up to the point where the context
  is done. As a draw is in [0, 1), a KV whose quotient is 1 or more is admitted whatever
  the draw, and one whose quotient is 0 or less (as with a negative \<open>sampleSize\<close>) never is:
  the quotient is the probability of admission only between 0 and 1.
\<close>

theorem sampler_admission:
  assumes "samplecsv E fdiv sampleSize rnd kvCh = (err, rows)"
  shows "(sampleSize = 0 \<longrightarrow>
            prefix rows (map sample_row kvCh) \<and> (err = None \<longrightarrow> rows = map sample_row kvCh))
       \<and> (sampleSize \<noteq> 0 \<longrightarrow>
            prefix rows (admitted_rows fdiv (real_of_int sampleSize) rnd 0 kvCh)
          \<and> (err = None \<longrightarrow> rows = admitted_rows fdiv (real_of_int sampleSize) rnd 0 kvCh))
       \<and> ((\<forall>i. E (SendSample i) = None) \<longrightarrow> err = None)
       \<and> (\<forall>n keyval. fst (sampleAll n keyval))
       \<and> (\<forall>n keyval.
            fst (sample fdiv \<lparr>sr_rnd = rnd, sr_sampleSize = real_of_int sampleSize\<rparr> n keyval)
              \<longleftrightarrow> fdiv (real (length (Key keyval) + length (RawBytes (Value keyval))))
                     (real_of_int sampleSize) > rnd n)
       \<and> (\<forall>n keyval. 0 \<le> rnd n \<and> rnd n < 1 \<longrightarrow>
            (1 \<le> fdiv (real (length (Key keyval) + length (RawBytes (Value keyval))))
                    (real_of_int sampleSize) \<longrightarrow>
               fst (sample fdiv \<lparr>sr_rnd = rnd, sr_sampleSize = real_of_int sampleSize\<rparr> n keyval))
          \<and> (fdiv (real (length (Key keyval) + length (RawBytes (Value keyval))))
                    (real_of_int sampleSize) \<le> 0 \<longrightarrow>
               \<not> fst (sample fdiv \<lparr>sr_rnd = rnd, sr_sampleSize = real_of_int sampleSize\<rparr> n
                       keyval)))"
proof -
  let ?s = "\<lparr>sr_rnd = rnd, sr_sampleSize = real_of_int sampleSize\<rparr>"
  have zero: "prefix rows (map sample_row kvCh) \<and> (err = None \<longrightarrow> rows = map sample_row kvCh)"
    if z: "sampleSize = 0"
  proof -
    have "samplecsv_loop E sampleAll kvCh 0 [] = (err, rows)"
      using assms z by (simp add: samplecsv_def)
    from samplecsv_loop_sampleAll[OF this] show ?thesis by simp
  qed
  have nonzero: "prefix rows (admitted_rows fdiv (real_of_int sampleSize) rnd 0 kvCh)
          \<and> (err = None \<longrightarrow> rows = admitted_rows fdiv (real_of_int sampleSize) rnd 0 kvCh)"
    if nz: "sampleSize \<noteq> 0"
  proof -
    have "samplecsv_loop E (sample fdiv ?s) kvCh 0 [] = (err, rows)"
      using assms nz by (simp add: samplecsv_def)
    from samplecsv_loop_sample[OF this] show ?thesis by simp
  qed
  have sends: "err = None" if s: "\<forall>i. E (SendSample i) = None"
  proof (cases "sampleSize = 0")
    case True
    then have "samplecsv_loop E sampleAll kvCh 0 [] = (err, rows)"
      using assms by (simp add: samplecsv_def)
    from samplecsv_loop_sampleAll[OF this] s show ?thesis by simp
  next
    case False
    then have "samplecsv_loop E (sample fdiv ?s) kvCh 0 [] = (err, rows)"
      using assms by (simp add: samplecsv_def)
    from samplecsv_loop_sample[OF this] s show ?thesis by simp
  qed
  have all: "fst (sampleAll n keyval)" for n keyval
    by (simp add: sampleAll_def)
  have test: "fst (sample fdiv ?s n keyval)
              \<longleftrightarrow> fdiv (real (length (Key keyval) + length (RawBytes (Value keyval))))
                     (real_of_int sampleSize) > rnd n" for n keyval
    by (simp add: sample_def Let_def)
  have bounds: "(1 \<le> fdiv (real (length (Key keyval) + length (RawBytes (Value keyval))))
                    (real_of_int sampleSize) \<longrightarrow> fst (sample fdiv ?s n keyval))
          \<and> (fdiv (real (length (Key keyval) + length (RawBytes (Value keyval))))
                    (real_of_int sampleSize) \<le> 0 \<longrightarrow> \<not> fst (sample fdiv ?s n keyval))"
    if "0 \<le> rnd n \<and> rnd n < 1" for n keyval
    using that by (simp add: sample_def Let_def)
  show ?thesis
    by (intro conjI impI allI) (simp_all add: zero nonzero sends all test bounds)
qed

theorem sampler_admission_witness:
  "samplecsv no_faults (/) 4 example_rnd scenario1_kvs = (None, [[[2], [20]], [[3], [30]]])
   \<and> samplecsv no_faults (/) 0 example_rnd scenario1_kvs
       = (None, [[[2], [20]], [[1], [10]], [[3], [30]]])"
proof -
  obtain err rows where
    w: "samplecsv no_faults (/) 4 example_rnd scenario1_kvs = (err, rows)"
    by (metis surj_pair)
  obtain err0 rows0 where
    w0: "samplecsv no_faults (/) 0 example_rnd scenario1_kvs = (err0, rows0)"
    by (metis surj_pair)
  have nf: "\<forall>i. no_faults (SendSample i) = None" by (simp add: no_faults_def)
  have adm: "admitted_rows (/) (real_of_int 4) example_rnd 0 scenario1_kvs
               = [[[2], [20]], [[3], [30]]]"
    by (simp add: admitted_rows_def kv_size_def example_rnd_def scenario1_kvs_def example_kv_def
        sample_row_def upt_conv_Cons)
  have all: "map sample_row scenario1_kvs = [[[2], [20]], [[1], [10]], [[3], [30]]]"
    by (simp add: scenario1_kvs_def example_kv_def sample_row_def)
  note T = sampler_admission[OF w]
  note T0 = sampler_admission[OF w0]
  have e: "err = None" using T nf by blast
  have e0: "err0 = None" using T0 nf by blast
  have "(4::int) \<noteq> 0 \<longrightarrow>
          (err = None \<longrightarrow> rows = admitted_rows (/) (real_of_int 4) example_rnd 0 scenario1_kvs)"
    using T by blast
  then have r: "rows = [[[2], [20]], [[3], [30]]]" using e adm by simp
  have "(0::int) = 0 \<longrightarrow> (err0 = None \<longrightarrow> rows0 = map sample_row scenario1_kvs)"
    using T0 by blast
  then have r0: "rows0 = [[[2], [20]], [[1], [10]], [[3], [30]]]" using e0 all by simp
  show ?thesis unfolding w w0 using e r e0 r0 by simp
qed

text \<open>
  The claim as first stated gives the probability of admission as the quotient. For a KV
  of four bytes and a \<open>sampleSize\<close> of 2 the quotient is 2, which is no probability: the KV
  is admitted with a draw of 0 as with a draw of 999/1000. For a \<open>sampleSize\<close> of -1 the
  quotient is -4, and the KV is not admitted even with a draw of 0.
\<close>

theorem sampling_probability_counterexample:
  "real (length (Key four_byte_kv) + length (RawBytes (Value four_byte_kv))) / real_of_int 2 = 2
   \<and> fst (sample (/) \<lparr>sr_rnd = constant_rnd 0, sr_sampleSize = real_of_int 2\<rparr> 0 four_byte_kv)
   \<and> fst (sample (/) \<lparr>sr_rnd = constant_rnd (999 / 1000), sr_sampleSize = real_of_int 2\<rparr> 0
            four_byte_kv)
   \<and> samplecsv no_faults (/) 2 (constant_rnd (999 / 1000)) [four_byte_kv]
       = (None, [[[1, 2], [3, 4]]])
   \<and> real (length (Key four_byte_kv) + length (RawBytes (Value four_byte_kv))) / real_of_int (- 1)
       = - 4
   \<and> \<not> fst (sample (/) \<lparr>sr_rnd = constant_rnd 0, sr_sampleSize = real_of_int (- 1)\<rparr> 0
              four_byte_kv)
   \<and> samplecsv no_faults (/) (- 1) (constant_rnd 0) [four_byte_kv] = (None, [])"
  by (simp add: samplecsv_def sample_def sampleAll_def sample_row_def constant_rnd_def
      four_byte_kv_def example_kv_def no_faults_def Let_def)

section \<open>Duplicate keys in writeRocksDB\<close>

lemma boundary_duplicate_key:
  assumes "E (IterValid (nat (count st))) = None" and "firstKey st = None" and "lastKey st = k"
  shows "fst (writeRocksDB_iterate E m wt ((k, v) # rest) st)
           = Some (Errorf ''duplicate key: %s'' [AKey k])"
  using assms by (simp add: writeRocksDB_step_def check_firstKey_def Let_def)

lemma duplicate_error_message:
  assumes "duplicate_error k e"
  shows "AKey k \<in> set (args e) \<and> (\<exists>f \<in> set (formats e). sublist ''duplicate'' f)"
proof -
  have a: "sublist ''duplicate'' ''duplicate key: %s''"
    using sublist_appendI[of "''duplicate''" "[]" "'' key: %s''"] by simp
  have b: "sublist ''duplicate'' errSSTCreationMaybeDuplicateTemplate"
    using sublist_appendI[of "''duplicate''"
        "''SST creation error at %s; this can happen when a primary or unique index has ''"
        "'' keys''"]
    by (simp add: errSSTCreationMaybeDuplicateTemplate_def)
  show ?thesis using assms a b by (auto simp: duplicate_error_def)
qed

lemma add_kv_error_no_fault:
  assumes "add_kv E wt k v st1 = (Some e, st2)" and "E (SstAdd (nat (count st1 - 1))) = None"
  shows "e = Wrapf (External ''keys must be added in order'') errSSTCreationMaybeDuplicateTemplate
               [AKey k]
       \<and> entries (sst st1) \<noteq> [] \<and> \<not> mvcc_Key (kv_Key (last (entries (sst st1)))) < k"
  using assms by (auto simp: add_kv_def sst_Add_def Let_def split: if_splits)

lemma flush_if_full_no_fault:
  assumes "\<forall>c. E c = None"
  shows "fst (flush_if_full E m st) = None"
  using assms
  by (simp add: flush_if_full_def writeSST_def MakeRocksDBSstFileWriter_new_def Let_def)

lemma sorted_wrt_less_snoc:
  assumes "sorted_wrt (<) (map fst (seen :: (Key \<times> bytes) list))"
      and "seen \<noteq> [] \<longrightarrow> fst (last seen) < k"
  shows "sorted_wrt (<) (map fst (seen @ [(k, v)]))"
proof -
  have "fst x < k" if "x \<in> set seen" for x
  proof -
    have ne: "seen \<noteq> []" using that by auto
    then obtain ys y where s: "seen = ys @ [y]" by (cases seen rule: rev_cases) auto
    have "fst x \<le> fst y"
      using assms(1) that s by (auto simp: sorted_wrt_append intro: less_imp_le)
    then show ?thesis using assms(2) ne s by simp
  qed
  then show ?thesis using assms(1) by (simp add: sorted_wrt_append)
qed

lemma inv_last_entry:
  assumes "inv m wt seen st" and "entries (sst st) \<noteq> []"
  shows "seen \<noteq> [] \<and> mvcc_Key (kv_Key (last (entries (sst st)))) = fst (last seen)"
proof -
  have eq: "concat (map sc_data (contentCh st)) @ entries (sst st) = map (stamped wt) seen"
    using assms(1) by (simp add: inv_def)
  then have ne: "seen \<noteq> []" using assms(2) by auto
  have "last (concat (map sc_data (contentCh st)) @ entries (sst st)) = last (entries (sst st))"
    using assms(2) by simp
  then have "last (entries (sst st)) = stamped wt (last seen)"
    unfolding eq using ne by (simp add: last_map)
  then show ?thesis using ne by (simp add: stamped_def)
qed

lemma step_strict:
  assumes I: "inv m wt seen st" and S: "strict seen st"
      and le: "\<forall>x \<in> set seen. fst x \<le> k"
      and s: "writeRocksDB_step E m wt k v st = (None, st')"
  shows "strict (seen @ [(k, v)]) st'"
proof -
  from step_split[OF s] obtain st1 st2 where
    c: "check_firstKey k (st\<lparr>count := count st + 1\<rparr>) = (None, st1)" and
    a: "add_kv E wt k v st1 = (None, st2)" and
    f: "flush_if_full E m st2 = (None, st')"
    by auto
  note C = check_firstKey_result[OF c]
  note A = add_kv_result[OF a]
  have gt: "fst (last seen) < k" if ne: "seen \<noteq> []"
  proof (cases "entries (sst st) = []")
    case True
    then have "firstKey st = None" using I by (simp add: inv_def)
    then have "k \<noteq> lastKey st" using C by simp
    moreover have "lastKey st = fst (last seen)" using S True ne by (simp add: strict_def)
    moreover have "fst (last seen) \<le> k" using le ne by simp
    ultimately show ?thesis by simp
  next
    case False
    then have "mvcc_Key (kv_Key (last (entries (sst st)))) < k" using A C by simp
    then show ?thesis using inv_last_entry[OF I False] by simp
  qed
  have so: "sorted_wrt (<) (map fst (seen @ [(k, v)]))"
    using S gt by (intro sorted_wrt_less_snoc) (simp_all add: strict_def)
  have e2: "entries (sst st2) \<noteq> []" using A by simp
  have lk: "entries (sst st') = [] \<longrightarrow> lastKey st' = k"
    using flush_if_full_result[OF f] e2 A by (auto simp: new_kv_def)
  show ?thesis using so lk by (simp add: strict_def)
qed

lemma step_split_valid:
  assumes "writeRocksDB_step E m wt k v st = (r, st')" and "E (IterValid (nat (count st))) = None"
  shows "\<exists>r1 st1. check_firstKey k (st\<lparr>count := count st + 1\<rparr>) = (r1, st1) \<and>
            ((r1 \<noteq> None \<and> r = r1 \<and> st' = st1)
           \<or> (r1 = None \<and> (\<exists>r2 st2. add_kv E wt k v st1 = (r2, st2) \<and>
                 ((r2 \<noteq> None \<and> r = r2 \<and> st' = st2)
                \<or> (r2 = None \<and> flush_if_full E m st2 = (r, st'))))))"
  using assms
  by (auto simp: writeRocksDB_step_def split: option.splits prod.splits)

lemma step_error_duplicate:
  assumes nf: "\<forall>c. E c = None"
      and I: "inv m wt seen st" and K: "keys_ok seen st"
      and le: "\<forall>x \<in> set seen. fst x \<le> k" and kne: "k \<noteq> []"
      and s: "writeRocksDB_step E m wt k v st = (Some e, st')"
  shows "duplicate_error k e \<and> k \<in> fst ` set seen"
proof -
  have "E (IterValid (nat (count st))) = None" using nf by simp
  from step_split_valid[OF s this] show ?thesis
  proof (elim disjE exE conjE)
    fix r1 st1
    assume c: "check_firstKey k (st\<lparr>count := count st + 1\<rparr>) = (r1, st1)"
      and "r1 \<noteq> None" "Some e = r1"
    then have "e = Errorf ''duplicate key: %s'' [AKey k]" "k = lastKey st"
      using check_firstKey_result[OF c] by auto
    then show ?thesis using K kne by (auto simp: duplicate_error_def keys_ok_def)
  next
    fix r1 st1 r2 st2
    assume c: "check_firstKey k (st\<lparr>count := count st + 1\<rparr>) = (r1, st1)" and "r1 = None"
      and a: "add_kv E wt k v st1 = (r2, st2)" and "r2 \<noteq> None" "Some e = r2"
    then have a': "add_kv E wt k v st1 = (Some e, st2)" by simp
    note C = check_firstKey_result[OF c]
    from add_kv_error_no_fault[OF a'] nf have
      e: "e = Wrapf (External ''keys must be added in order'')
                errSSTCreationMaybeDuplicateTemplate [AKey k]"
      and ne: "entries (sst st) \<noteq> []"
      and nl: "\<not> mvcc_Key (kv_Key (last (entries (sst st)))) < k"
      using C by auto
    from inv_last_entry[OF I ne] have
      sn: "seen \<noteq> []" and la: "mvcc_Key (kv_Key (last (entries (sst st)))) = fst (last seen)"
      by simp_all
    have "fst (last seen) \<le> k" using le sn by simp
    then have "k = fst (last seen)" using nl la by simp
    then have "k \<in> fst ` set seen" using sn by simp
    then show ?thesis using e by (simp add: duplicate_error_def)
  next
    fix r1 st1 r2 st2
    assume "flush_if_full E m st2 = (Some e, st')"
    then show ?thesis using flush_if_full_no_fault[OF nf, of m st2] by simp
  qed
qed

lemma iterate_duplicate:
  assumes nf: "\<forall>c. E c = None"
      and "inv m wt seen st" and "keys_ok seen st" and "strict seen st"
      and "sorted (map fst items)" and "\<forall>x \<in> set seen. \<forall>y \<in> set items. fst x \<le> fst y"
      and "\<forall>y \<in> set items. fst y \<noteq> []"
      and "writeRocksDB_iterate E m wt items st = (r, st')"
  shows "(r = None \<and> sorted_wrt (<) (map fst (seen @ items)))
       \<or> (\<exists>e k. r = Some e \<and> duplicate_error k e
                 \<and> 2 \<le> length (filter (\<lambda>x. fst x = k) (seen @ items)))"
  using assms(2-)
proof (induction items arbitrary: seen st)
  case Nil
  then show ?case using nf by (auto simp: strict_def)
next
  case (Cons x items)
  obtain k v where x: "x = (k, v)" by (cases x)
  obtain r1 st1 where s: "writeRocksDB_step E m wt k v st = (r1, st1)" by (metis surj_pair)
  have le: "\<forall>y \<in> set seen. fst y \<le> k" using Cons.prems(5) x by simp
  have kne: "k \<noteq> []" using Cons.prems(6) x by simp
  show ?case
  proof (cases r1)
    case None
    have s': "writeRocksDB_step E m wt k v st = (None, st1)" using s None by simp
    have I1: "inv m wt (seen @ [(k, v)]) st1" by (rule step_inv[OF Cons.prems(1) s'])
    have K1: "keys_ok (seen @ [(k, v)]) st1"
      by (rule step_keys_ok[OF Cons.prems(1) Cons.prems(2) le s'])
    have S1: "strict (seen @ [(k, v)]) st1"
      by (rule step_strict[OF Cons.prems(1) Cons.prems(3) le s'])
    have so: "sorted (map fst items)" using Cons.prems(4) by simp
    have le1: "\<forall>a \<in> set (seen @ [(k, v)]). \<forall>y \<in> set items. fst a \<le> fst y"
      using Cons.prems(4,5) x by auto
    have ne1: "\<forall>y \<in> set items. fst y \<noteq> []" using Cons.prems(6) by simp
    have it: "writeRocksDB_iterate E m wt items st1 = (r, st')"
      using Cons.prems(7) s' x by simp
    from Cons.IH[OF I1 K1 S1 so le1 ne1 it] show ?thesis using x by simp
  next
    case (Some e)
    then have r: "r = Some e" using Cons.prems(7) s x by simp
    have s': "writeRocksDB_step E m wt k v st = (Some e, st1)" using s Some by simp
    from step_error_duplicate[OF nf Cons.prems(1) Cons.prems(2) le kne s'] have
      d: "duplicate_error k e" and m: "k \<in> fst ` set seen" by simp_all
    from m obtain y where "y \<in> set seen" "fst y = k" by auto
    then have "filter (\<lambda>x. fst x = k) seen \<noteq> []" by (auto simp: filter_empty_conv)
    then have "1 \<le> length (filter (\<lambda>x. fst x = k) seen)"
      by (simp add: Suc_le_eq)
    then have "2 \<le> length (filter (\<lambda>x. fst x = k) (seen @ x # items))"
      using x by simp
    then show ?thesis using r d by blast
  qed
qed

lemma writeRocksDB_put_no_fault:
  assumes "\<forall>c. E c = None"
  shows "writeRocksDB_put E n kvCh m0 = Inr (m0 @ put_all kvCh)"
  using assms
  by (induction kvCh arbitrary: n m0) (simp_all add: put_all_def multimap_Put_def)

lemma strict_initial: "strict [] (initial_state w now)"
  by (simp add: strict_def)

lemma NewIterator_put_all_keys:
  "distinct (map fst (NewIterator (put_all kvCh))) = distinct (map Key kvCh)"
  "set (NewIterator (put_all kvCh)) = set (put_all kvCh)"
  "length (filter (\<lambda>x. fst x = k) (NewIterator (put_all kvCh)))
     = length (filter (\<lambda>x. Key x = k) kvCh)"
proof -
  have m: "map fst (put_all kvCh) = map Key kvCh" by (simp add: put_all_def comp_def)
  have "distinct (map fst (NewIterator (put_all kvCh))) = distinct (map fst (put_all kvCh))"
    by (simp add: NewIterator_def distinct_map)
  then show "distinct (map fst (NewIterator (put_all kvCh))) = distinct (map Key kvCh)"
    using m by simp
  show "set (NewIterator (put_all kvCh)) = set (put_all kvCh)"
    by (simp add: NewIterator_def)
  have "length (filter (\<lambda>x. fst x = k) (NewIterator (put_all kvCh)))
          = length (filter (\<lambda>x. fst x = k) (put_all kvCh))"
    by (simp add: NewIterator_def filter_sort)
  also have "\<dots> = length (filter (\<lambda>x. Key x = k) kvCh)"
    by (simp add: put_all_def filter_map comp_def)
  finally show "length (filter (\<lambda>x. fst x = k) (NewIterator (put_all kvCh)))
     = length (filter (\<lambda>x. Key x = k) kvCh)" .
qed

lemma writeRocksDB_duplicate_key:
  assumes nf: "\<forall>c. E c = None"
      and ne: "\<forall>x \<in> set kvCh. Key x \<noteq> []"
      and dup: "\<not> distinct (map Key kvCh)"
  shows "\<exists>e k. fst (writeRocksDB E kvCh sstMaxSize walltime now) = Inl e
             \<and> duplicate_error k e
             \<and> 2 \<le> length (filter (\<lambda>x. Key x = k) kvCh)"
proof -
  let ?st0 = "initial_state \<lparr>entries = [], DataSize = 0\<rparr> now"
  let ?items = "NewIterator (put_all kvCh)"
  obtain r st1 where it: "writeRocksDB_iterate E sstMaxSize walltime ?items ?st0 = (r, st1)"
    by (metis surj_pair)
  have ne': "\<forall>y \<in> set ?items. fst y \<noteq> []"
    using ne unfolding NewIterator_put_all_keys(2) by (auto simp: put_all_def)
  have "(r = None \<and> sorted_wrt (<) (map fst ([] @ ?items)))
       \<or> (\<exists>e k. r = Some e \<and> duplicate_error k e
                 \<and> 2 \<le> length (filter (\<lambda>x. fst x = k) ([] @ ?items)))"
    by (rule iterate_duplicate[OF nf inv_initial keys_ok_initial strict_initial
          NewIterator_sorted _ ne' it]) simp
  then show ?thesis
  proof
    assume "r = None \<and> sorted_wrt (<) (map fst ([] @ ?items))"
    then have "distinct (map fst ?items)" by (simp add: strict_sorted_iff)
    then show ?thesis using dup by (simp add: NewIterator_put_all_keys(1))
  next
    assume "\<exists>e k. r = Some e \<and> duplicate_error k e
                 \<and> 2 \<le> length (filter (\<lambda>x. fst x = k) ([] @ ?items))"
    then obtain e k where r: "r = Some e" and d: "duplicate_error k e"
      and c: "2 \<le> length (filter (\<lambda>x. Key x = k) kvCh)"
      by (auto simp: NewIterator_put_all_keys(3))
    have p: "writeRocksDB_put E 0 kvCh [] = Inr (put_all kvCh)"
      using writeRocksDB_put_no_fault[OF nf, of 0 kvCh "[]"] by simp
    have cl: "E WriterClose = None" and mk: "E (MakeRocksDBSstFileWriter 0) = None"
      using nf by simp_all
    have "fst (writeRocksDB E kvCh sstMaxSize walltime now) = Inl e"
      by (simp add: writeRocksDB_def MakeRocksDBSstFileWriter_new_def p cl mk it r)
    then show ?thesis using d c by blast
  qed
qed

lemma doLocalCSVTransform_first_error:
  assumes "readCSV E src comma comment (length (VisibleColumns tableDesc)) dataFiles = (Inr n, records)"
      and "convertRecord nullif tableDesc records = (None, kvCh)"
      and "writeRocksDB E kvCh sstMaxSize walltime now = (Inl e, st)"
      and "contentCh st = []"
      and "E ExportStorageFromURI = None"
  shows "fst (doLocalCSVTransform E src convertRecord X [0, 1, 2, 3] parentID tableDesc dest dataFiles
                comma comment nullif sstMaxSize walltime now execCfg) = (n, 0, 0, Some e)
       \<and> fst (doLocalCSVTransform E src convertRecord X [0, 1, 3, 2] parentID tableDesc dest dataFiles
                comma comment nullif sstMaxSize walltime now execCfg)
           = (n, 0, 0, Some (Errorf ''no files in backup'' []))"
  using assms
  by (simp add: doLocalCSVTransform_def makeBackup_def finalizeCSVBackup_def
      empty_BackupDescriptor_def)

section \<open>Duplicate keys and the error of the pipeline\<close>

text \<open>
  Claim C1. When no external call fails, no key is empty and the KVs hold a duplicate key,
  \<open>writeRocksDB\<close> returns an error that names a duplicated key and mentions duplicate keys
  (lemma \<open>writeRocksDB_duplicate_key\<close>; at a segment boundary it is "duplicate key: %s",
  lemma \<open>boundary_duplicate_key\<close>). When it has sent no segment by then, \<open>makeBackup\<close>
  finds its channel closed and returns "no files in backup", and \<open>group.Wait\<close> returns
  whichever of the two errors was returned first: the duplicate-key error when the sorter's
  goroutine returns first, "no files in backup" when the finalizer's does.
\<close>

theorem duplicate_key_error_swallowed:
  assumes nf: "\<forall>c. E c = None"
      and rd: "readCSV E src comma comment (length (VisibleColumns tableDesc)) dataFiles
                 = (Inr n, records)"
      and cv: "convertRecord nullif tableDesc records = (None, kvCh)"
      and ne: "\<forall>x \<in> set kvCh. Key x \<noteq> []"
      and dup: "\<not> distinct (map Key kvCh)"
      and first: "contentCh (snd (writeRocksDB E kvCh sstMaxSize walltime now)) = []"
  shows "\<exists>e k. fst (writeRocksDB E kvCh sstMaxSize walltime now) = Inl e
             \<and> duplicate_error k e
             \<and> 2 \<le> length (filter (\<lambda>x. Key x = k) kvCh)
             \<and> fst (doLocalCSVTransform E src convertRecord X [0, 1, 2, 3] parentID tableDesc
                      dest dataFiles comma comment nullif sstMaxSize walltime now execCfg)
                 = (n, 0, 0, Some e)
             \<and> fst (doLocalCSVTransform E src convertRecord X [0, 1, 3, 2] parentID tableDesc
                      dest dataFiles comma comment nullif sstMaxSize walltime now execCfg)
                 = (n, 0, 0, Some (Errorf ''no files in backup'' []))"
proof -
  from writeRocksDB_duplicate_key[OF nf ne dup] obtain e k where
    w: "fst (writeRocksDB E kvCh sstMaxSize walltime now) = Inl e"
    and d: "duplicate_error k e"
    and c: "2 \<le> length (filter (\<lambda>x. Key x = k) kvCh)"
    by blast
  obtain st where ws: "writeRocksDB E kvCh sstMaxSize walltime now = (Inl e, st)"
    using w by (metis prod.collapse)
  have cs: "contentCh st = []" using first ws by simp
  have x: "E ExportStorageFromURI = None" using nf by simp
  have "fst (doLocalCSVTransform E src convertRecord X [0, 1, 2, 3] parentID tableDesc
                      dest dataFiles comma comment nullif sstMaxSize walltime now execCfg)
                 = (n, 0, 0, Some e)
      \<and> fst (doLocalCSVTransform E src convertRecord X [0, 1, 3, 2] parentID tableDesc
                      dest dataFiles comma comment nullif sstMaxSize walltime now execCfg)
                 = (n, 0, 0, Some (Errorf ''no files in backup'' []))"
    using rd cv ws cs x by (intro doLocalCSVTransform_first_error) simp_all
  then show ?thesis using d c w by blast
qed

theorem duplicate_key_error_swallowed_witness:
  "fst (writeRocksDB no_faults scenario2_kvs 1024 100 5)
     = Inl (Wrapf (External ''keys must be added in order'')
              ''SST creation error at %s; this can happen when a primary or unique index has duplicate keys''
              [AKey [2]])
   \<and> contentCh (snd (writeRocksDB no_faults scenario2_kvs 1024 100 5)) = []
   \<and> fst (makeBackup no_faults example_externs 50 example_tableDesc [] [] 100 None)
       = (0, Some (Errorf ''no files in backup'' []))
   \<and> fst (doLocalCSVTransform no_faults scenario2_source (\<lambda>nullif desc records. (None, scenario2_kvs))
            example_externs [0, 1, 2, 3] 50 example_tableDesc [] [''f.csv''] 0 0 None 1024 100 5 None)
       = (4, 0, 0,
          Some (Wrapf (External ''keys must be added in order'')
              ''SST creation error at %s; this can happen when a primary or unique index has duplicate keys''
              [AKey [2]]))
   \<and> fst (doLocalCSVTransform no_faults scenario2_source (\<lambda>nullif desc records. (None, scenario2_kvs))
            example_externs [0, 1, 3, 2] 50 example_tableDesc [] [''f.csv''] 0 0 None 1024 100 5 None)
       = (4, 0, 0, Some (Errorf ''no files in backup'' []))"
proof -
  have w: "writeRocksDB no_faults scenario2_kvs 1024 100 5
     = (Inl (Wrapf (External ''keys must be added in order'')
              ''SST creation error at %s; this can happen when a primary or unique index has duplicate keys''
              [AKey [2]]), snd (writeRocksDB no_faults scenario2_kvs 1024 100 5))"
    and first: "contentCh (snd (writeRocksDB no_faults scenario2_kvs 1024 100 5)) = []"
    by (simp_all add: errSSTCreationMaybeDuplicateTemplate_def
        writeRocksDB_def no_faults_def scenario2_kvs_def example_kv_def
        writeRocksDB_step_def check_firstKey_def add_kv_def flush_if_full_def
        initial_state_def MakeRocksDBSstFileWriter_new_def NewIterator_def multimap_Put_def
        sst_Add_def writeSST_def kv_bytes_def Next_def Let_def)
  have nf: "\<forall>c. no_faults c = None" by (simp add: no_faults_def)
  have rd: "readCSV no_faults scenario2_source 0 0 (length (VisibleColumns example_tableDesc))
              [''f.csv'']
              = (Inr 4, snd (readCSV no_faults scenario2_source 0 0
                               (length (VisibleColumns example_tableDesc)) [''f.csv'']))"
    by (simp add: readCSV_def readCSV_file_def scenario2_source_def no_faults_def
        example_tableDesc_def VisibleColumns_def)
  have ne: "\<forall>x \<in> set scenario2_kvs. Key x \<noteq> []"
    by (simp add: scenario2_kvs_def example_kv_def)
  have dup: "\<not> distinct (map Key scenario2_kvs)"
    by (simp add: scenario2_kvs_def example_kv_def)
  have mb: "fst (makeBackup no_faults example_externs 50 example_tableDesc [] [] 100 None)
       = (0, Some (Errorf ''no files in backup'' []))"
    by (simp add: makeBackup_def finalizeCSVBackup_def empty_BackupDescriptor_def no_faults_def)
  have cv: "(\<lambda>nullif desc records. (None, scenario2_kvs)) None example_tableDesc
              (snd (readCSV no_faults scenario2_source 0 0
                      (length (VisibleColumns example_tableDesc)) [''f.csv'']))
            = (None, scenario2_kvs)"
    by simp
  note T = duplicate_key_error_swallowed[of no_faults scenario2_source 0 0 example_tableDesc
      "[''f.csv'']" 4 "snd (readCSV no_faults scenario2_source 0 0
                      (length (VisibleColumns example_tableDesc)) [''f.csv''])"
      "\<lambda>nullif desc records. (None, scenario2_kvs)" None scenario2_kvs
      1024 100 5 example_externs 50 "[]" None]
  from T[OF nf rd cv ne dup first]
  obtain e where
    "fst (writeRocksDB no_faults scenario2_kvs 1024 100 5) = Inl e"
    "fst (doLocalCSVTransform no_faults scenario2_source (\<lambda>nullif desc records. (None, scenario2_kvs))
            example_externs [0, 1, 2, 3] 50 example_tableDesc [] [''f.csv''] 0 0 None 1024 100 5 None)
       = (4, 0, 0, Some e)"
    "fst (doLocalCSVTransform no_faults scenario2_source (\<lambda>nullif desc records. (None, scenario2_kvs))
            example_externs [0, 1, 3, 2] 50 example_tableDesc [] [''f.csv''] 0 0 None 1024 100 5 None)
       = (4, 0, 0, Some (Errorf ''no files in backup'' []))"
    by auto
  then show ?thesis using w first mb by (metis Inl_inject fst_conv)
qed

end
